theory Spec2Isabelle
  imports Main "HOL-Library.Sublist"
begin

section \<open>Strings, errors and time\<close>

text \<open>
  A Python \<open>str\<close> is modelled by the bytes of its UTF-8 encoding (the encoding
  \<open>update_readme\<close> reads and writes the document with). The markers and all the
  punctuation the script looks for are ASCII, so searching the bytes finds what
  searching the code points finds.
\<close>

datatype py_error =
    KeyError string
  | TemplateError
  | OverflowError

definition nl :: char where
  "nl = CHR 0x0A"

definition backslash :: char where
  "backslash = CHR 0x5C"

text \<open>\<open>sep.join(parts)\<close>.\<close>

fun join :: "string \<Rightarrow> string list \<Rightarrow> string" where
  "join sep [] = []"
| "join sep [x] = x"
| "join sep (x # y # ys) = x @ sep @ join sep (y # ys)"

text \<open>\<open>str(n)\<close> for an integer: decimal digits, a minus sign for negatives.\<close>

definition digit_char :: "nat \<Rightarrow> char" where
  "digit_char n = ''0123456789'' ! (n mod 10)"

fun str_nat :: "nat \<Rightarrow> string" where
  "str_nat n = (if n < 10 then [digit_char n] else str_nat (n div 10) @ [digit_char n])"

declare str_nat.simps [simp del]

definition str_int :: "int \<Rightarrow> string" where
  "str_int i = (if i < 0 then CHR ''-'' # str_nat (nat (- i)) else str_nat (nat i))"

text \<open>A number printed with leading zeros up to a width, as \<open>%m\<close>, \<open>%d\<close>,
  \<open>%H\<close>, \<open>%M\<close> and (from the year 1000 on) \<open>%Y\<close> print it.\<close>

definition zero_pad :: "nat \<Rightarrow> nat \<Rightarrow> string" where
  "zero_pad w n = replicate (w - length (str_nat n)) (CHR ''0'') @ str_nat n"

text \<open>
  A \<open>datetime\<close> is the number of microseconds since 0001-01-01T00:00:00, the first
  instant Python's \<open>datetime\<close> can hold. \<open>dt - timedelta(days=n)\<close> raises
  \<open>OverflowError\<close> when it would leave that range.
\<close>

type_synonym datetime = nat

definition us_per_day :: nat where
  "us_per_day = 86400000000"

definition minus_days :: "datetime \<Rightarrow> nat \<Rightarrow> py_error + datetime" where
  "minus_days t n = (if t < n * us_per_day then Inl OverflowError else Inr (t - n * us_per_day))"

text \<open>The calendar date of a day number, by the algorithm of Python's \<open>datetime\<close>
  (\<open>_ord2ymd\<close>); day 1 is 0001-01-01.\<close>

definition days_before_month :: "nat \<Rightarrow> nat" where
  "days_before_month m = [0, 0, 31, 59, 90, 120, 151, 181, 212, 243, 273, 304, 334] ! m"

definition days_in_month :: "nat \<Rightarrow> nat" where
  "days_in_month m = [0, 31, 28, 31, 30, 31, 30, 31, 31, 30, 31, 30, 31] ! m"

definition ord2ymd :: "nat \<Rightarrow> nat \<times> nat \<times> nat" where
  "ord2ymd ordinal =
     (let n0 = ordinal - 1;
          n400 = n0 div 146097; n1 = n0 mod 146097;
          n100 = n1 div 36524; n2 = n1 mod 36524;
          n4 = n2 div 1461; n3 = n2 mod 1461;
          n1y = n3 div 365; n = n3 mod 365;
          year = n400 * 400 + 1 + n100 * 100 + n4 * 4 + n1y
      in if n1y = 4 \<or> n100 = 4 then (year - 1, 12, 31)
         else
           let leapyear = (n1y = 3 \<and> (n4 \<noteq> 24 \<or> n100 = 3));
               month = (n + 50) div 32;
               preceding = days_before_month month + (if month > 2 \<and> leapyear then 1 else 0)
           in if preceding > n
              then (year, month - 1,
                    n - (preceding - (days_in_month (month - 1)
                                      + (if month - 1 = 2 \<and> leapyear then 1 else 0))) + 1)
              else (year, month, n - preceding + 1))"

definition date_of :: "datetime \<Rightarrow> nat \<times> nat \<times> nat" where
  "date_of t = ord2ymd (t div us_per_day + 1)"

text \<open>\<open>strftime('%Y-%m-%d')\<close>, \<open>strftime('%m/%d')\<close> and
  \<open>strftime('%Y-%m-%d %H:%M UTC')\<close>.\<close>

definition fmt_ymd :: "datetime \<Rightarrow> string" where
  "fmt_ymd t = (case date_of t of (y, m, d) \<Rightarrow>
     zero_pad 4 y @ ''-'' @ zero_pad 2 m @ ''-'' @ zero_pad 2 d)"

definition fmt_md :: "datetime \<Rightarrow> string" where
  "fmt_md t = (case date_of t of (y, m, d) \<Rightarrow> zero_pad 2 m @ ''/'' @ zero_pad 2 d)"

definition fmt_stamp :: "datetime \<Rightarrow> string" where
  "fmt_stamp t =
     fmt_ymd t @ '' '' @ zero_pad 2 (t mod us_per_day div 3600000000) @ '':''
       @ zero_pad 2 (t mod 3600000000 div 60000000) @ '' UTC''"

section \<open>Pattern substitution\<close>

text \<open>
  \<open>update_readme\<close> calls \<open>re.sub(f'{start}.*?{end}', section, readme, flags=re.DOTALL)\<close>.
  None of the marker characters is special in a pattern, so the pattern is: the start
  marker, as few characters of any kind as possible (line breaks included), the end
  marker.

  \<open>find_lit pat s\<close> is the first occurrence of the literal \<open>pat\<close> in \<open>s\<close>: the text
  before it and the text after it.
\<close>

fun find_lit :: "'a list \<Rightarrow> 'a list \<Rightarrow> ('a list \<times> 'a list) option" where
  "find_lit pat [] = (if pat = [] then Some ([], []) else None)"
| "find_lit pat (c # cs) =
     (if prefix pat (c # cs) then Some ([], drop (length pat) (c # cs))
      else (case find_lit pat cs of
              None \<Rightarrow> None
            | Some (before, after) \<Rightarrow> Some (c # before, after)))"

text \<open>
  \<open>re_search S E doc\<close> is the leftmost match of the pattern: the matcher tries each
  position from the left; at a position where \<open>S\<close> stands, the lazy \<open>.*?\<close> grows
  until \<open>E\<close> follows. The result is the text before the match, the text between the
  markers and the text after the match.
\<close>

fun re_search :: "'a list \<Rightarrow> 'a list \<Rightarrow> 'a list \<Rightarrow> ('a list \<times> 'a list \<times> 'a list) option" where
  "re_search S E [] = (if S = [] \<and> E = [] then Some ([], [], []) else None)"
| "re_search S E (c # cs) =
     (case (if prefix S (c # cs) then find_lit E (drop (length S) (c # cs)) else None) of
        Some (mid, post) \<Rightarrow> Some ([], mid, post)
      | None \<Rightarrow>
          (case re_search S E cs of
             None \<Rightarrow> None
           | Some (pre, mid, post) \<Rightarrow> Some (c # pre, mid, post)))"

text \<open>
  The replacement string of \<open>re.sub\<close> is a template: a backslash starts an escape.
  \<open>parse_template\<close> follows \<open>re._parser.parse_template\<close> of CPython 3.12 for a
  pattern without groups: \<open>\g<0>\<close> stands for the whole match, every other group
  reference is an error, \<open>\n\<close> and its like stand for control characters, octal
  escapes for the character of that code, an unknown escape of an ASCII letter is an
  error, and any other escaped character stays as it is, backslash included. The
  template is compiled before the search starts, so a bad template raises whether or not
  the pattern matches. \<open>TemplateError\<close> stands for the exceptions of this step.
\<close>

datatype titem = Lit char | Group0

definition octdigit :: "char \<Rightarrow> bool" where
  "octdigit c \<longleftrightarrow> c \<in> set ''01234567''"

definition digit :: "char \<Rightarrow> bool" where
  "digit c \<longleftrightarrow> c \<in> set ''0123456789''"

definition ascii_letter :: "char \<Rightarrow> bool" where
  "ascii_letter c \<longleftrightarrow>
     c \<in> set ''abcdefghijklmnopqrstuvwxyzABCDEFGHIJKLMNOPQRSTUVWXYZ''"

definition digit_val :: "char \<Rightarrow> nat" where
  "digit_val c = of_char c - 48"

text \<open>The UTF-8 bytes of \<open>chr(v)\<close> for \<open>v < 256\<close>.\<close>

definition chr_utf8 :: "nat \<Rightarrow> string" where
  "chr_utf8 v = (if v < 128 then [char_of v]
                 else [char_of (192 + v div 64), char_of (128 + v mod 64)])"

fun getuntil :: "char \<Rightarrow> string \<Rightarrow> (string \<times> string) option" where
  "getuntil t [] = None"
| "getuntil t (c # cs) =
     (if c = t then Some ([], cs)
      else (case getuntil t cs of
              None \<Rightarrow> None
            | Some (name, rest) \<Rightarrow> Some (c # name, rest)))"

lemma getuntil_length: "getuntil t s = Some (name, rest) \<Longrightarrow> length rest < length s"
  by (induction s arbitrary: name) (auto split: if_splits option.splits)

definition escapes :: "char \<Rightarrow> char option" where
  "escapes e =
     map_of [(CHR ''a'', CHR 0x07), (CHR ''b'', CHR 0x08), (CHR ''f'', CHR 0x0C),
             (CHR ''n'', CHR 0x0A), (CHR ''r'', CHR 0x0D), (CHR ''t'', CHR 0x09),
             (CHR ''v'', CHR 0x0B), (CHR 0x5C, CHR 0x5C)] e"

text \<open>One step of the template parser: the items of the next token or escape and the
  text left after it.\<close>

definition group_ref :: "string \<Rightarrow> py_error + titem list \<times> string" where
  "group_ref rest =
     (case rest of
        [] \<Rightarrow> Inl TemplateError
      | b # r2 \<Rightarrow>
          if b \<noteq> CHR ''<'' then Inl TemplateError
          else (case getuntil (CHR ''>'') r2 of
                  None \<Rightarrow> Inl TemplateError
                | Some (name, r3) \<Rightarrow>
                    if name \<noteq> [] \<and> (\<forall>d \<in> set name. d = CHR ''0'')
                    then Inr ([Group0], r3)
                    else Inl TemplateError))"

definition octal_zero :: "string \<Rightarrow> py_error + titem list \<times> string" where
  "octal_zero rest =
     (case rest of
        [] \<Rightarrow> Inr ([Lit (CHR 0x00)], [])
      | d2 # r2 \<Rightarrow>
          if octdigit d2 then
            (case r2 of
               [] \<Rightarrow> Inr ([Lit (char_of (digit_val d2))], [])
             | d3 # r3 \<Rightarrow>
                 if octdigit d3
                 then Inr ([Lit (char_of (8 * digit_val d2 + digit_val d3))], r3)
                 else Inr ([Lit (char_of (digit_val d2))], d3 # r3))
          else Inr ([Lit (CHR 0x00)], d2 # r2))"

definition digit_escape :: "char \<Rightarrow> string \<Rightarrow> py_error + titem list \<times> string" where
  "digit_escape e rest =
     (case rest of
        [] \<Rightarrow> Inl TemplateError
      | d2 # r2 \<Rightarrow>
          if digit d2 then
            (case r2 of
               [] \<Rightarrow> Inl TemplateError
             | d3 # r3 \<Rightarrow>
                 if octdigit e \<and> octdigit d2 \<and> octdigit d3 then
                   (let v = 64 * digit_val e + 8 * digit_val d2 + digit_val d3
                    in if v > 255 then Inl TemplateError
                       else Inr (map Lit (chr_utf8 v), r3))
                 else Inl TemplateError)
          else Inl TemplateError)"

definition next_item :: "char \<Rightarrow> string \<Rightarrow> py_error + titem list \<times> string" where
  "next_item c cs =
     (if c \<noteq> backslash then Inr ([Lit c], cs)
      else (case cs of
              [] \<Rightarrow> Inl TemplateError
            | e # rest \<Rightarrow>
                if e = CHR ''g'' then group_ref rest
                else if e = CHR ''0'' then octal_zero rest
                else if digit e then digit_escape e rest
                else (case escapes e of
                        Some x \<Rightarrow> Inr ([Lit x], rest)
                      | None \<Rightarrow>
                          if ascii_letter e then Inl TemplateError
                          else Inr ([Lit backslash, Lit e], rest))))"

lemma group_ref_length: "group_ref s = Inr (items, r) \<Longrightarrow> length r < length s"
  by (auto simp: group_ref_def split: list.splits if_splits option.splits
      dest: getuntil_length)

lemma octal_zero_length: "octal_zero s = Inr (items, r) \<Longrightarrow> length r \<le> length s"
  by (auto simp: octal_zero_def split: list.splits if_splits)

lemma digit_escape_length: "digit_escape e s = Inr (items, r) \<Longrightarrow> length r < length s"
  by (auto simp: digit_escape_def Let_def split: list.splits if_splits)

lemma next_item_length: "next_item c cs = Inr (items, r) \<Longrightarrow> length r \<le> length cs"
proof (cases "c = backslash")
  case False
  then show "next_item c cs = Inr (items, r) \<Longrightarrow> ?thesis" by (simp add: next_item_def)
next
  case True
  assume ni: "next_item c cs = Inr (items, r)"
  then obtain e rest where cs: "cs = e # rest"
    using True by (cases cs) (simp_all add: next_item_def)
  consider "e = CHR ''g''" | "e \<noteq> CHR ''g''" "e = CHR ''0''"
    | "e \<noteq> CHR ''g''" "e \<noteq> CHR ''0''" "digit e"
    | "e \<noteq> CHR ''g''" "e \<noteq> CHR ''0''" "\<not> digit e"
    by blast
  then show ?thesis
  proof cases
    case 1
    with ni True cs have "group_ref rest = Inr (items, r)" by (simp add: next_item_def)
    from group_ref_length[OF this] cs show ?thesis by simp
  next
    case 2
    with ni True cs have "octal_zero rest = Inr (items, r)" by (simp add: next_item_def)
    from octal_zero_length[OF this] cs show ?thesis by simp
  next
    case 3
    with ni True cs have "digit_escape e rest = Inr (items, r)" by (simp add: next_item_def)
    from digit_escape_length[OF this] cs show ?thesis by simp
  next
    case 4
    with ni True cs have "r = rest"
      by (auto simp: next_item_def split: option.splits if_splits)
    with cs show ?thesis by simp
  qed
qed

function parse_template :: "string \<Rightarrow> py_error + titem list" where
  "parse_template [] = Inr []"
| "parse_template (c # cs) =
     (case next_item c cs of
        Inl e \<Rightarrow> Inl e
      | Inr (items, rest) \<Rightarrow>
          (case parse_template rest of
             Inl e \<Rightarrow> Inl e
           | Inr more \<Rightarrow> Inr (items @ more)))"
  by pat_completeness auto
termination
proof (relation "measure length")
  show "wf (measure length)" by simp
next
  fix c cs x2 x y
  assume "next_item c cs = Inr x2" "(x, y) = x2"
  then have "next_item c cs = Inr (x, y)" by simp
  from next_item_length[OF this] show "(y, c # cs) \<in> measure length" by simp
qed

fun expand_template :: "titem list \<Rightarrow> string \<Rightarrow> string" where
  "expand_template [] m = []"
| "expand_template (Lit c # items) m = c # expand_template items m"
| "expand_template (Group0 # items) m = m @ expand_template items m"

text \<open>
  \<open>sub_all\<close> is the loop of \<open>re.sub\<close>: copy the text before the leftmost match,
  append the expanded template, go on after the match.
\<close>

lemma find_lit_Some: "find_lit pat s = Some (b, a) \<Longrightarrow> s = b @ pat @ a"
proof (induction s arbitrary: b a)
  case Nil
  then show ?case by (simp split: if_splits)
next
  case (Cons c cs)
  show ?case
  proof (cases "prefix pat (c # cs)")
    case True
    with Cons.prems have "b = []" "a = drop (length pat) (c # cs)" by simp_all
    moreover from True have "c # cs = pat @ drop (length pat) (c # cs)"
      by (metis append_eq_conv_conj prefixE)
    ultimately show ?thesis by simp
  next
    case False
    with Cons.prems obtain b' where "find_lit pat cs = Some (b', a)" "b = c # b'"
      by (auto split: option.splits)
    with Cons.IH show ?thesis by simp
  qed
qed

lemma re_search_Some:
  "re_search S E doc = Some (pre, mid, post) \<Longrightarrow> doc = pre @ S @ mid @ E @ post"
proof (induction doc arbitrary: pre)
  case Nil
  then show ?case by (simp split: if_splits)
next
  case (Cons c cs)
  show ?case
  proof (cases "if prefix S (c # cs) then find_lit E (drop (length S) (c # cs)) else None")
    case None
    with Cons.prems obtain pre' where "re_search S E cs = Some (pre', mid, post)" "pre = c # pre'"
      by (auto split: option.splits)
    with Cons.IH show ?thesis by simp
  next
    case (Some r)
    then have pS: "prefix S (c # cs)" and fl: "find_lit E (drop (length S) (c # cs)) = Some r"
      by (auto split: if_splits)
    from Some Cons.prems have r: "r = (mid, post)" "pre = []" by auto
    from pS have "c # cs = S @ drop (length S) (c # cs)"
      by (metis append_eq_conv_conj prefixE)
    with find_lit_Some[OF fl[unfolded r(1)]] r(2) show ?thesis by simp
  qed
qed

function sub_all :: "'a list \<Rightarrow> 'a list \<Rightarrow> ('a list \<Rightarrow> 'a list) \<Rightarrow> 'a list \<Rightarrow> 'a list" where
  "sub_all S E repl doc =
     (case re_search S E doc of
        None \<Rightarrow> doc
      | Some (pre, mid, post) \<Rightarrow>
          if S @ mid @ E = [] then doc
          else pre @ repl (S @ mid @ E) @ sub_all S E repl post)"
  by pat_completeness auto
termination
proof (relation "measure (\<lambda>(S, E, repl, doc). length doc)")
  show "wf (measure (\<lambda>(S, E, repl, doc). length doc))" by simp
next
  fix S E :: "'a list" and repl :: "'a list \<Rightarrow> 'a list" and doc x2 pre y mid post
  assume a: "re_search S E doc = Some x2" "(pre, y) = x2" "(mid, post) = y" "S @ mid @ E \<noteq> []"
  then have "re_search S E doc = Some (pre, mid, post)" by simp
  from re_search_Some[OF this] a(4)
  have "length post < length doc" by (cases "S = []"; cases "E = []"; cases "mid = []") auto
  then show "((S, E, repl, post), S, E, repl, doc) \<in> measure (\<lambda>(S, E, repl, doc). length doc)"
    by simp
qed

declare sub_all.simps [simp del]

text \<open>
  \<open>re.sub(pattern, repl, string)\<close> for the pattern of the two markers: the template
  is compiled first, then the loop runs. The match is never empty when a marker has a
  character; the test for the empty match in \<open>sub_all\<close> only makes the recursion
  well-founded for every argument.
\<close>

definition re_sub :: "string \<Rightarrow> string \<Rightarrow> string \<Rightarrow> string \<Rightarrow> py_error + string" where
  "re_sub S E repl doc =
     (case parse_template repl of
        Inl e \<Rightarrow> Inl e
      | Inr items \<Rightarrow> Inr (sub_all S E (expand_template items) doc))"

section \<open>The document patcher\<close>

definition activity_start :: string where
  "activity_start = ''<!-- ACTIVITY_START -->''"

definition activity_end :: string where
  "activity_end = ''<!-- ACTIVITY_END -->''"

definition stats_start :: string where
  "stats_start = ''<!-- STATS_START -->''"

definition stats_end :: string where
  "stats_end = ''<!-- STATS_END -->''"

definition date_start :: string where
  "date_start = ''<!-- DATE_START -->''"

definition date_end :: string where
  "date_end = ''<!-- DATE_END -->''"

definition activity_section :: "string \<Rightarrow> string" where
  "activity_section activity_content =
     activity_start @ [nl] @ activity_content @ [nl] @ activity_end"

definition stats_section :: "string \<Rightarrow> string" where
  "stats_section stats_content = stats_start @ [nl] @ stats_content @ [nl] @ stats_end"

definition date_section :: "datetime \<Rightarrow> string" where
  "date_section now = date_start @ fmt_stamp now @ date_end"

text \<open>
  \<open>update_readme\<close>: the text read from the file goes in, the text written to the file
  comes out; \<open>now\<close> is the clock read for the date line. An exception leaves before the
  file is written.
\<close>

definition update_readme :: "string \<Rightarrow> string \<Rightarrow> datetime \<Rightarrow> string \<Rightarrow> py_error + string" where
  "update_readme activity_content stats_content now readme =
     (case re_sub activity_start activity_end (activity_section activity_content) readme of
        Inl e \<Rightarrow> Inl e
      | Inr readme1 \<Rightarrow>
          (case re_sub stats_start stats_end (stats_section stats_content) readme1 of
             Inl e \<Rightarrow> Inl e
           | Inr readme2 \<Rightarrow> re_sub date_start date_end (date_section now) readme2))"

text \<open>The three substitutions of \<open>update_readme\<close>, in the order it applies them: start
  marker, end marker, replacement.\<close>

definition substitutions :: "string \<Rightarrow> string \<Rightarrow> datetime \<Rightarrow> (string \<times> string \<times> string) list" where
  "substitutions activity_content stats_content now =
     [(activity_start, activity_end, activity_section activity_content),
      (stats_start, stats_end, stats_section stats_content),
      (date_start, date_end, date_section now)]"

section \<open>Facts about the search and the substitution\<close>

lemma find_lit_None: "find_lit pat s = None \<longleftrightarrow> \<not> sublist pat s"
  by (induction s) (auto simp: sublist_Cons_right split: option.splits)

lemma prefix_overlap:
  assumes "prefix pat (b @ pat @ a)" "b \<noteq> []"
  shows "prefix pat (b @ butlast pat)"
proof (cases "pat = []")
  case True
  then show ?thesis by simp
next
  case False
  have "length pat \<le> length (b @ butlast pat)"
    using assms(2) False by (cases b) simp_all
  moreover have "prefix (b @ butlast pat) (b @ pat @ a)"
    by (simp add: prefixeq_butlast)
  ultimately show ?thesis
    using assms(1) by (metis prefix_length_prefix)
qed

lemma not_sublist_butlast: "pat \<noteq> [] \<Longrightarrow> \<not> sublist pat (butlast pat)"
  using sublist_length_le[of pat "butlast pat"] by (cases pat) auto

lemma find_lit_first:
  "find_lit pat s = Some (b, a) \<Longrightarrow> pat \<noteq> [] \<Longrightarrow> \<not> sublist pat (b @ butlast pat)"
proof (induction s arbitrary: b a)
  case Nil
  then show ?case by (simp split: if_splits)
next
  case (Cons c cs)
  show ?case
  proof (cases "prefix pat (c # cs)")
    case True
    with Cons.prems have "b = []" by simp
    with not_sublist_butlast[OF Cons.prems(2)] show ?thesis by simp
  next
    case False
    with Cons.prems obtain b' where b': "find_lit pat cs = Some (b', a)" "b = c # b'"
      by (auto split: option.splits)
    from find_lit_Some[OF b'(1)] have cs: "cs = b' @ pat @ a" .
    have "\<not> prefix pat (c # b' @ butlast pat)"
    proof
      assume "prefix pat (c # b' @ butlast pat)"
      moreover have "prefix (c # b' @ butlast pat) (c # cs)"
        unfolding cs by (simp add: prefixeq_butlast)
      ultimately show False using False by (meson prefix_order.order_trans)
    qed
    with Cons.IH[OF b'(1) Cons.prems(2)] show ?thesis
      by (simp add: b'(2) sublist_Cons_right)
  qed
qed

lemma find_lit_intro:
  "\<not> sublist pat (b @ butlast pat) \<Longrightarrow> find_lit pat (b @ pat @ a) = Some (b, a)"
proof (induction b)
  case Nil
  then have "pat \<noteq> []" by auto
  then obtain p ps where "pat = p # ps" by (cases pat) auto
  then show ?case by simp
next
  case (Cons c b)
  have "\<not> prefix pat ((c # b) @ pat @ a)"
    using Cons.prems prefix_overlap[of pat "c # b" a] by auto
  moreover have "\<not> sublist pat (b @ butlast pat)"
    using Cons.prems by (simp add: sublist_Cons_right)
  ultimately show ?case using Cons.IH by simp
qed

lemma re_search_None:
  "\<not> sublist S doc \<or> \<not> sublist E doc \<Longrightarrow> re_search S E doc = None"
proof (rule ccontr)
  assume a: "\<not> sublist S doc \<or> \<not> sublist E doc" and "re_search S E doc \<noteq> None"
  then obtain pre mid post where "re_search S E doc = Some (pre, mid, post)" by auto
  from re_search_Some[OF this] have d: "doc = pre @ S @ mid @ E @ post" .
  have "sublist S doc" unfolding d by simp
  moreover have "doc = (pre @ S @ mid) @ E @ post" unfolding d by simp
  then have "sublist E doc" unfolding sublist_def by blast
  ultimately show False using a by simp
qed

lemma re_search_intro:
  assumes "\<not> sublist S (pre @ butlast S)" "\<not> sublist E (mid @ butlast E)"
  shows "re_search S E (pre @ S @ mid @ E @ post) = Some (pre, mid, post)"
  using assms(1)
proof (induction pre)
  case Nil
  then have "S \<noteq> []" by auto
  then obtain p ps where S: "S = p # ps" by (cases S) auto
  have "find_lit E (mid @ E @ post) = Some (mid, post)"
    by (rule find_lit_intro[OF assms(2)])
  then show ?case by (simp add: S)
next
  case (Cons c pre)
  have np: "\<not> prefix S ((c # pre) @ S @ mid @ E @ post)"
    using Cons.prems prefix_overlap[of S "c # pre" "mid @ E @ post"] by auto
  have "\<not> sublist S (pre @ butlast S)"
    using Cons.prems by (simp add: sublist_Cons_right)
  from Cons.IH[OF this] np show ?case by simp
qed

lemma re_search_skip:
  assumes "prefix S (c # cs)" "find_lit E (drop (length S) (c # cs)) = None"
  shows "re_search S E cs = None"
proof (rule ccontr)
  assume "re_search S E cs \<noteq> None"
  then obtain p m q where "re_search S E cs = Some (p, m, q)" by auto
  from re_search_Some[OF this] have cs: "cs = p @ S @ m @ E @ q" .
  from assms(1) have "S \<noteq> [] \<Longrightarrow> length S - 1 \<le> length (p @ S)" by simp
  have "sublist E (drop (length S) (c # cs))"
  proof (cases S)
    case Nil
    have "c # cs = (c # p @ S @ m) @ E @ q" using cs by simp
    then have "sublist E (c # cs)" unfolding sublist_def by blast
    with Nil show ?thesis by simp
  next
    case (Cons s ss)
    have "drop (length S) (c # cs) = drop (length ss) ((p @ S) @ m @ E @ q)"
      using Cons cs by simp
    also have "\<dots> = drop (length ss) (p @ S) @ m @ E @ q"
      using Cons by (simp del: append_assoc add: drop_append)
    finally have "drop (length S) (c # cs) = (drop (length ss) (p @ S) @ m) @ E @ q" by simp
    then show ?thesis unfolding sublist_def by blast
  qed
  with assms(2) show False by (simp add: find_lit_None)
qed

lemma re_search_first:
  "re_search S E doc = Some (pre, mid, post) \<Longrightarrow> S \<noteq> [] \<Longrightarrow> E \<noteq> [] \<Longrightarrow>
     \<not> sublist S (pre @ butlast S) \<and> \<not> sublist E (mid @ butlast E)"
proof (induction doc arbitrary: pre)
  case Nil
  then show ?case by (simp split: if_splits)
next
  case (Cons c cs)
  show ?case
  proof (cases "prefix S (c # cs)")
    case True
    show ?thesis
    proof (cases "find_lit E (drop (length S) (c # cs))")
      case None
      from re_search_skip[OF True None] Cons.prems(1) True None show ?thesis by simp
    next
      case (Some r)
      with True Cons.prems(1) have r: "r = (mid, post)" "pre = []" by auto
      from find_lit_first[OF Some[unfolded r(1)] Cons.prems(3)]
        not_sublist_butlast[OF Cons.prems(2)] r(2)
      show ?thesis by simp
    qed
  next
    case False
    with Cons.prems(1) obtain pre' where p: "re_search S E cs = Some (pre', mid, post)" "pre = c # pre'"
      by (auto split: option.splits)
    from Cons.IH[OF p(1) Cons.prems(2,3)]
    have ih: "\<not> sublist S (pre' @ butlast S)" "\<not> sublist E (mid @ butlast E)" by simp_all
    from re_search_Some[OF p(1)] have cs: "cs = pre' @ S @ mid @ E @ post" .
    have "\<not> prefix S (c # pre' @ butlast S)"
    proof
      assume "prefix S (c # pre' @ butlast S)"
      moreover have "prefix (c # pre' @ butlast S) (c # cs)"
        unfolding cs by (simp add: prefixeq_butlast)
      ultimately show False using False by (meson prefix_order.order_trans)
    qed
    with ih show ?thesis by (simp add: p(2) sublist_Cons_right)
  qed
qed

lemma parse_template_literal:
  "backslash \<notin> set t \<Longrightarrow> parse_template t = Inr (map Lit t)"
  by (induction t) (auto simp: next_item_def)

lemma expand_template_literal: "expand_template (map Lit t) m = t"
  by (induction t) auto

lemma re_sub_literal:
  "backslash \<notin> set repl \<Longrightarrow> re_sub S E repl doc = Inr (sub_all S E (\<lambda>m. repl) doc)"
  by (simp add: re_sub_def parse_template_literal expand_template_literal[abs_def])

lemma sublist_sep:
  assumes "c \<notin> set m"
  shows "sublist m (u @ c # v) \<longleftrightarrow> sublist m u \<or> sublist m v"
proof
  assume "sublist m (u @ c # v)"
  then consider "sublist m u" | "sublist m (c # v)"
    | m1 m2 where "m = m1 @ m2" "suffix m1 u" "prefix m2 (c # v)"
    unfolding sublist_append by blast
  then show "sublist m u \<or> sublist m v"
  proof cases
    case 1
    then show ?thesis by simp
  next
    case 2
    then show ?thesis using assms
      by (auto simp: sublist_Cons_right prefix_Cons)
  next
    case 3
    from 3(3) assms 3(1) have "m2 = []" by (auto simp: prefix_Cons)
    with 3 show ?thesis by auto
  qed
next
  assume "sublist m u \<or> sublist m v"
  then show "sublist m (u @ c # v)"
  proof
    assume "sublist m u"
    then show ?thesis
      by (meson sublist_order.order_trans prefix_imp_sublist prefixI)
  next
    assume "sublist m v"
    then obtain a b where "v = a @ m @ b" unfolding sublist_def by blast
    then have "u @ c # v = (u @ c # a) @ m @ b" by simp
    then show ?thesis unfolding sublist_def by blast
  qed
qed

lemma not_sublist_head:
  assumes "e \<notin> set x"
  shows "\<not> sublist (e # es) (x @ butlast (e # es))"
proof
  assume "sublist (e # es) (x @ butlast (e # es))"
  then consider "sublist (e # es) x" | "sublist (e # es) (butlast (e # es))"
    | m1 m2 where "e # es = m1 @ m2" "suffix m1 x" "prefix m2 (butlast (e # es))"
    unfolding sublist_append by blast
  then show False
  proof cases
    case 1
    from set_mono_sublist[OF this] assms show False by auto
  next
    case 2
    with not_sublist_butlast[of "e # es"] show False by simp
  next
    case 3
    show False
    proof (cases m1)
      case Nil
      with 3 have "prefix (e # es) (butlast (e # es))" by simp
      then have "sublist (e # es) (butlast (e # es))" by (rule prefix_imp_sublist)
      with not_sublist_butlast[of "e # es"] show False by simp
    next
      case (Cons a as)
      with 3(1) have "a = e" by simp
      moreover from 3(2) have "set m1 \<subseteq> set x" by (auto simp: suffix_def)
      ultimately show False using assms Cons by auto
    qed
  qed
qed

lemma sub_all_None: "re_search S E doc = None \<Longrightarrow> sub_all S E repl doc = doc"
  by (simp add: sub_all.simps)

lemma sub_all_Some:
  "re_search S E doc = Some (pre, mid, post) \<Longrightarrow> S \<noteq> [] \<Longrightarrow>
     sub_all S E repl doc = pre @ repl (S @ mid @ E) @ sub_all S E repl post"
  by (subst sub_all.simps) simp

lemma sub_all_idem:
  assumes "S \<noteq> []" "E \<noteq> []" "\<not> sublist E (x @ butlast E)"
  shows "sub_all S E (\<lambda>m. S @ x @ E) (sub_all S E (\<lambda>m. S @ x @ E) doc)
         = sub_all S E (\<lambda>m. S @ x @ E) doc"
proof (induction doc rule: length_induct)
  case (1 doc)
  show ?case
  proof (cases "re_search S E doc")
    case None
    then show ?thesis by (simp add: sub_all_None)
  next
    case (Some r)
    then obtain pre mid post where r: "re_search S E doc = Some (pre, mid, post)"
      by (cases r) auto
    let ?f = "\<lambda>m. S @ x @ E"
    from re_search_Some[OF r] assms(1) have "length post < length doc" by (cases S) auto
    with 1 have ih: "sub_all S E ?f (sub_all S E ?f post) = sub_all S E ?f post" by blast
    from re_search_first[OF r assms(1,2)] have f: "\<not> sublist S (pre @ butlast S)" by simp
    have one: "sub_all S E ?f doc = pre @ S @ x @ E @ sub_all S E ?f post"
      using sub_all_Some[OF r assms(1)] by simp
    have "re_search S E (pre @ S @ x @ E @ sub_all S E ?f post)
          = Some (pre, x, sub_all S E ?f post)"
      by (rule re_search_intro[OF f assms(3)])
    from sub_all_Some[OF this assms(1)] ih one show ?thesis by simp
  qed
qed

definition plain :: "string \<Rightarrow> bool" where
  "plain s \<longleftrightarrow> list_all (\<lambda>c. c \<noteq> backslash \<and> c \<noteq> CHR ''<'') s"

lemma plain_simps [simp]:
  "plain []"
  "plain (c # s) \<longleftrightarrow> c \<noteq> backslash \<and> c \<noteq> CHR ''<'' \<and> plain s"
  "plain (s @ t) \<longleftrightarrow> plain s \<and> plain t"
  by (simp_all add: plain_def)

lemma plain_set: "plain s \<Longrightarrow> backslash \<notin> set s \<and> CHR ''<'' \<notin> set s"
  by (auto simp: plain_def list_all_iff)

lemma plain_replicate [simp]: "plain (replicate n c) \<longleftrightarrow> n = 0 \<or> plain [c]"
  by (induction n) auto

lemma plain_digit_char: "plain [digit_char n]"
proof -
  have "digit_char n \<in> set ''0123456789''"
    unfolding digit_char_def by (rule nth_mem) simp
  then show ?thesis by (auto simp: backslash_def)
qed

lemma plain_str_nat [simp]: "plain (str_nat n)"
proof (induction n rule: str_nat.induct)
  case (1 n)
  show ?case
  proof (cases "n < 10")
    case True
    with plain_digit_char[of n] show ?thesis by (subst str_nat.simps) simp
  next
    case False
    with 1 plain_digit_char[of n] show ?thesis by (subst str_nat.simps) simp
  qed
qed

lemma plain_zero_pad [simp]: "plain (zero_pad w n)"
  by (simp add: zero_pad_def backslash_def)

lemma plain_fmt_ymd [simp]: "plain (fmt_ymd t)"
  by (cases "date_of t") (simp add: fmt_ymd_def backslash_def)

lemma plain_fmt_stamp [simp]: "plain (fmt_stamp t)"
  by (simp add: fmt_stamp_def backslash_def)

section \<open>The substitutions of the document patcher\<close>

lemmas marker_defs =
  activity_start_def activity_end_def stats_start_def stats_end_def date_start_def date_end_def

lemma markers_no_backslash:
  "backslash \<notin> set activity_start" "backslash \<notin> set activity_end"
  "backslash \<notin> set stats_start" "backslash \<notin> set stats_end"
  "backslash \<notin> set date_start" "backslash \<notin> set date_end"
  by (simp_all add: marker_defs backslash_def)

lemma markers_no_nl:
  "nl \<notin> set activity_start" "nl \<notin> set activity_end"
  "nl \<notin> set stats_start" "nl \<notin> set stats_end"
  "nl \<notin> set date_start" "nl \<notin> set date_end"
  by (simp_all add: marker_defs nl_def)

lemma markers_nonempty:
  "activity_start \<noteq> []" "activity_end \<noteq> []" "stats_start \<noteq> []" "stats_end \<noteq> []"
  "date_start \<noteq> []" "date_end \<noteq> []"
  by (simp_all add: marker_defs)

lemma sections_no_backslash:
  "backslash \<notin> set a \<Longrightarrow> backslash \<notin> set (activity_section a)"
  "backslash \<notin> set s \<Longrightarrow> backslash \<notin> set (stats_section s)"
  "backslash \<notin> set (date_section now)"
  using plain_set[OF plain_fmt_stamp[of now]]
  by (simp_all add: activity_section_def stats_section_def date_section_def
      markers_no_backslash) (simp_all add: nl_def backslash_def)

lemma substitution_cases:
  assumes "(S, E, repl) \<in> set (substitutions a s now)"
  obtains "S = activity_start" "E = activity_end" "repl = activity_section a"
  | "S = stats_start" "E = stats_end" "repl = stats_section s"
  | "S = date_start" "E = date_end" "repl = date_section now"
  using assms by (auto simp: substitutions_def)

lemma substitution_literal:
  assumes "(S, E, repl) \<in> set (substitutions a s now)"
    and "backslash \<notin> set a" "backslash \<notin> set s"
  shows "backslash \<notin> set repl"
  using assms(1)
  by (rule substitution_cases) (simp_all add: sections_no_backslash assms)

lemma absent_pair_unchanged_aux:
  assumes "\<not> sublist S doc \<or> \<not> sublist E doc" "backslash \<notin> set repl"
  shows "re_sub S E repl doc = Inr doc"
  using re_search_None[OF assms(1)] re_sub_literal[OF assms(2)]
  by (simp add: sub_all_None)

text \<open>
  Claim C9, as amended. When the start marker or the end marker of a pair does not occur
  in the document and the contents hold no backslash, the substitution of
  \<open>update_readme\<close> for that pair finds no region, raises nothing and returns the
  document as it was. Without a backslash the replacement is a literal template.
\<close>

theorem absent_pair_unchanged:
  assumes "(S, E, repl) \<in> set (substitutions activity_content stats_content now)"
    and "backslash \<notin> set activity_content" "backslash \<notin> set stats_content"
    and "\<not> sublist S doc \<or> \<not> sublist E doc"
  shows "re_search S E doc = None \<and> re_sub S E repl doc = Inr doc"
proof -
  have n: "re_search S E doc = None" by (rule re_search_None[OF assms(4)])
  have "backslash \<notin> set repl" by (rule substitution_literal[OF assms(1-3)])
  then have "re_sub S E repl doc = Inr (sub_all S E (\<lambda>m. repl) doc)"
    by (rule re_sub_literal)
  with n show ?thesis by (simp add: sub_all_None)
qed

theorem absent_pair_unchanged_witness:
  "re_search stats_start stats_end ''# Hello <!-- STATS_END -->'' = None
   \<and> re_sub stats_start stats_end (stats_section ''12 commits'') ''# Hello <!-- STATS_END -->''
       = Inr ''# Hello <!-- STATS_END -->''"
  using absent_pair_unchanged[of stats_start stats_end "stats_section ''12 commits''"
      "''act''" "''12 commits''" 0 "''# Hello <!-- STATS_END -->''"]
  by (simp add: substitutions_def backslash_def stats_start_def sublist_Cons_right)

text \<open>
  Claim C9 as stated fails for a content with a backslash: the replacement is read as a
  template before the search begins, and an escape that is not known, as \<open>\q\<close>, raises
  although no region is found.
\<close>

theorem unknown_escape_in_content_counterexample:
  "\<not> sublist stats_start ''# Hello'' \<and> \<not> sublist stats_end ''# Hello''
   \<and> re_sub stats_start stats_end (stats_section [backslash, CHR ''q'']) ''# Hello''
       = Inl TemplateError
   \<and> update_readme ''3 commits'' [backslash, CHR ''q''] 63897984000000000 ''# Hello''
       = Inl TemplateError"
proof -
  have a: "\<not> sublist stats_start ''# Hello''" "\<not> sublist stats_end ''# Hello''"
    "\<not> sublist activity_start ''# Hello''"
    by (simp_all add: marker_defs sublist_Cons_right)
  have p: "parse_template (stats_section [backslash, CHR ''q'']) = Inl TemplateError"
    by (simp add: stats_section_def marker_defs nl_def backslash_def next_item_def
        escapes_def digit_def ascii_letter_def)
  then have s: "re_sub stats_start stats_end (stats_section [backslash, CHR ''q'']) doc
       = Inl TemplateError" for doc
    by (simp add: re_sub_def)
  have b: "backslash \<notin> set ''3 commits''" by (simp add: backslash_def)
  have "re_sub activity_start activity_end (activity_section ''3 commits'') ''# Hello''
      = Inr ''# Hello''"
    by (rule absent_pair_unchanged_aux[OF _ sections_no_backslash(1)[OF b]]) (simp add: a)
  then have "update_readme ''3 commits'' [backslash, CHR ''q''] 63897984000000000 ''# Hello''
       = Inl TemplateError"
    by (simp add: update_readme_def s)
  with a(1,2) s show ?thesis by blast
qed

lemma fmt_stamp_example: "fmt_stamp 63897984000000000 = ''2025-11-06 00:00 UTC''"
  by (simp add: fmt_stamp_def fmt_ymd_def date_of_def ord2ymd_def us_per_day_def Let_def
      days_before_month_def days_in_month_def zero_pad_def str_nat.simps digit_char_def)

lemma sub_all_region:
  assumes "\<not> sublist S (pre @ butlast S)" "\<not> sublist E (mid @ butlast E)"
  shows "sub_all S E repl (pre @ S @ mid @ E @ post)
         = pre @ repl (S @ mid @ E) @ sub_all S E repl post"
proof -
  from assms(1) have "S \<noteq> []" by auto
  with sub_all_Some[OF re_search_intro[OF assms]] show ?thesis by simp
qed

text \<open>
  Claim C1, as amended. Each of the three substitutions of \<open>update_readme\<close> replaces the
  region that runs from the first start marker to the nearest end marker after it,
  markers included and across line breaks, by its section text, and goes on in the same
  way with the text after the region. The section text is start marker, line break,
  content, line break, end marker for the activity and the stats pair; for the date pair
  it is start marker, time stamp, end marker, with no line break. The contents hold no
  backslash.
\<close>

theorem region_replaced:
  assumes "(S, E, repl) \<in> set (substitutions activity_content stats_content now)"
    and "backslash \<notin> set activity_content" "backslash \<notin> set stats_content"
    and "\<not> sublist S (pre @ butlast S)" "\<not> sublist E (mid @ butlast E)"
  shows "(\<exists>rest. re_sub S E repl post = Inr rest
            \<and> re_sub S E repl (pre @ S @ mid @ E @ post) = Inr (pre @ repl @ rest))
         \<and> repl = (if S = date_start then S @ fmt_stamp now @ E
                    else S @ [nl] @ (if S = activity_start then activity_content
                                     else stats_content) @ [nl] @ E)"
proof -
  have lit: "backslash \<notin> set repl" by (rule substitution_literal[OF assms(1-3)])
  have "re_sub S E repl post = Inr (sub_all S E (\<lambda>m. repl) post)"
    by (rule re_sub_literal[OF lit])
  moreover have "re_sub S E repl (pre @ S @ mid @ E @ post)
      = Inr (pre @ repl @ sub_all S E (\<lambda>m. repl) post)"
    by (simp add: re_sub_literal[OF lit] sub_all_region[OF assms(4,5)])
  moreover have "repl = (if S = date_start then S @ fmt_stamp now @ E
                    else S @ [nl] @ (if S = activity_start then activity_content
                                     else stats_content) @ [nl] @ E)"
    using assms(1)
    by (rule substitution_cases)
      (simp_all add: activity_section_def stats_section_def date_section_def,
        simp_all add: marker_defs)
  ultimately show ?thesis by blast
qed

lemma markers_distinct:
  "stats_start \<noteq> date_start" "stats_start \<noteq> activity_start"
  "activity_start \<noteq> date_start"
  by (simp_all add: marker_defs)

theorem region_replaced_witness:
  "(\<exists>rest. re_sub stats_start stats_end (stats_section ''S'') ''tail'' = Inr rest
      \<and> re_sub stats_start stats_end (stats_section ''S'')
            (''# Me '' @ stats_start @ ''old'' @ stats_end @ ''tail'')
          = Inr (''# Me '' @ stats_section ''S'' @ rest))
   \<and> stats_section ''S'' = (if stats_start = date_start then stats_start @ fmt_stamp 0 @ stats_end
                    else stats_start @ [nl] @ (if stats_start = activity_start then ''A''
                                     else ''S'') @ [nl] @ stats_end)"
proof -
  have h1: "(stats_start, stats_end, stats_section ''S'') \<in> set (substitutions ''A'' ''S'' 0)"
    by (simp add: substitutions_def)
  have h2: "backslash \<notin> set ''A''" and h3: "backslash \<notin> set ''S''"
    by (simp_all add: backslash_def)
  have h4: "\<not> sublist stats_start (''# Me '' @ butlast stats_start)"
    and h5: "\<not> sublist stats_end (''old'' @ butlast stats_end)"
    by (simp_all add: marker_defs sublist_Cons_right)
  show ?thesis by (rule region_replaced[OF h1 h2 h3 h4 h5])
qed

text \<open>
  Claim C1 as stated fails for the date pair: its region is replaced by the two markers
  around the time stamp, without the line breaks.
\<close>

theorem date_section_no_newlines_counterexample:
  "update_readme ''A'' ''S'' 63897984000000000 (date_start @ ''old'' @ date_end)
     = Inr (date_start @ ''2025-11-06 00:00 UTC'' @ date_end)
   \<and> update_readme ''A'' ''S'' 63897984000000000 (date_start @ ''old'' @ date_end)
     \<noteq> Inr (date_start @ [nl] @ ''2025-11-06 00:00 UTC'' @ [nl] @ date_end)"
proof -
  let ?doc = "date_start @ ''old'' @ date_end"
  let ?ds = "date_section 63897984000000000"
  have na: "\<not> sublist activity_start ?doc \<or> \<not> sublist activity_end ?doc"
    and ns: "\<not> sublist stats_start ?doc \<or> \<not> sublist stats_end ?doc"
    by (simp_all add: marker_defs sublist_Cons_right)
  have ba: "backslash \<notin> set (activity_section ''A'')"
    and bs: "backslash \<notin> set (stats_section ''S'')"
    by (rule sections_no_backslash, simp add: backslash_def)+
  have a: "re_sub activity_start activity_end (activity_section ''A'') ?doc = Inr ?doc"
    by (rule absent_pair_unchanged_aux[OF na ba])
  have s: "re_sub stats_start stats_end (stats_section ''S'') ?doc = Inr ?doc"
    by (rule absent_pair_unchanged_aux[OF ns bs])
  have f: "\<not> sublist date_start ([] @ butlast date_start)"
    "\<not> sublist date_end (''old'' @ butlast date_end)"
    by (simp_all add: marker_defs sublist_Cons_right)
  have e: "re_search date_start date_end [] = None" by (simp add: marker_defs)
  have r1: "re_sub date_start date_end ?ds ?doc
        = Inr (sub_all date_start date_end (\<lambda>m. ?ds) ?doc)"
    by (rule re_sub_literal[OF sections_no_backslash(3)])
  have r2: "sub_all date_start date_end (\<lambda>m. ?ds) ?doc = ?ds"
    using sub_all_region[OF f, of "\<lambda>m. ?ds" "[]"] sub_all_None[OF e, of "\<lambda>m. ?ds"]
    by simp
  have r3: "?ds = date_start @ ''2025-11-06 00:00 UTC'' @ date_end"
    by (simp add: date_section_def fmt_stamp_example)
  have "re_sub date_start date_end ?ds ?doc = Inr ?ds"
    by (simp only: r1 r2)
  then have d: "re_sub date_start date_end ?ds ?doc
      = Inr (date_start @ ''2025-11-06 00:00 UTC'' @ date_end)"
    by (rule trans) (simp only: r3)
  have "date_start @ ''2025-11-06 00:00 UTC'' @ date_end
        \<noteq> date_start @ [nl] @ ''2025-11-06 00:00 UTC'' @ [nl] @ date_end"
    by (simp add: nl_def)
  with a s d show ?thesis
    by (simp add: update_readme_def)
qed

lemma wrapped_no_end:
  assumes "nl \<notin> set E" "E \<noteq> []" "\<not> sublist E c"
  shows "\<not> sublist E (([nl] @ c @ [nl]) @ butlast E)"
proof -
  have "sublist E ([] @ nl # (c @ nl # butlast E)) \<longleftrightarrow> sublist E [] \<or> sublist E (c @ nl # butlast E)"
    by (rule sublist_sep[OF assms(1)])
  moreover have "sublist E (c @ nl # butlast E) \<longleftrightarrow> sublist E c \<or> sublist E (butlast E)"
    by (rule sublist_sep[OF assms(1)])
  ultimately show ?thesis
    using assms(2,3) not_sublist_butlast[OF assms(2)] by simp
qed

lemma stamp_no_end: "\<not> sublist date_end (fmt_stamp now @ butlast date_end)"
proof -
  have "CHR ''<'' \<notin> set (fmt_stamp now)"
    using plain_set[OF plain_fmt_stamp[of now]] by simp
  from not_sublist_head[OF this, of "''!-- DATE_END -->''"] show ?thesis
    by (simp add: date_end_def)
qed

text \<open>
  Claim C3, as amended. For every document and each of the three substitutions of
  \<open>update_readme\<close>, applying the substitution to its own result gives that result
  again, when the contents hold no backslash and the content of a pair does not contain
  the end marker of that pair.
\<close>

theorem substitution_idempotent:
  assumes "(S, E, repl) \<in> set (substitutions activity_content stats_content now)"
    and "backslash \<notin> set activity_content" "backslash \<notin> set stats_content"
    and "\<not> sublist activity_end activity_content" "\<not> sublist stats_end stats_content"
  shows "\<exists>r. re_sub S E repl doc = Inr r \<and> re_sub S E repl r = Inr r"
proof -
  have lit: "backslash \<notin> set repl" by (rule substitution_literal[OF assms(1-3)])
  have "\<exists>x. repl = S @ x @ E \<and> S \<noteq> [] \<and> E \<noteq> [] \<and> \<not> sublist E (x @ butlast E)"
    using assms(1)
  proof (rule substitution_cases)
    assume "S = activity_start" "E = activity_end" "repl = activity_section activity_content"
    then show ?thesis
      using wrapped_no_end[OF markers_no_nl(2) markers_nonempty(2) assms(4)]
      by (intro exI[of _ "[nl] @ activity_content @ [nl]"])
        (simp add: activity_section_def markers_nonempty)
  next
    assume "S = stats_start" "E = stats_end" "repl = stats_section stats_content"
    then show ?thesis
      using wrapped_no_end[OF markers_no_nl(4) markers_nonempty(4) assms(5)]
      by (intro exI[of _ "[nl] @ stats_content @ [nl]"])
        (simp add: stats_section_def markers_nonempty)
  next
    assume "S = date_start" "E = date_end" "repl = date_section now"
    then show ?thesis
      using stamp_no_end[of now]
      by (intro exI[of _ "fmt_stamp now"]) (simp add: date_section_def markers_nonempty)
  qed
  then obtain x where x: "repl = S @ x @ E" "S \<noteq> []" "E \<noteq> []" "\<not> sublist E (x @ butlast E)"
    by blast
  have "sub_all S E (\<lambda>m. repl) (sub_all S E (\<lambda>m. repl) doc) = sub_all S E (\<lambda>m. repl) doc"
    unfolding x(1) by (rule sub_all_idem[OF x(2-4)])
  then show ?thesis by (simp add: re_sub_literal[OF lit])
qed

theorem substitution_idempotent_witness:
  "\<exists>r. re_sub activity_start activity_end (activity_section ''3 commits'')
          (''# Me '' @ activity_start @ ''old'' @ activity_end) = Inr r
       \<and> re_sub activity_start activity_end (activity_section ''3 commits'') r = Inr r"
proof -
  have h1: "(activity_start, activity_end, activity_section ''3 commits'')
      \<in> set (substitutions ''3 commits'' ''S'' 0)"
    by (simp add: substitutions_def)
  have h2: "backslash \<notin> set ''3 commits''" and h3: "backslash \<notin> set ''S''"
    by (simp_all add: backslash_def)
  have h4: "\<not> sublist activity_end ''3 commits''" and h5: "\<not> sublist stats_end ''S''"
    by (simp_all add: marker_defs sublist_Cons_right)
  show ?thesis by (rule substitution_idempotent[OF h1 h2 h3 h4 h5])
qed

text \<open>
  Claim C3 as stated fails for a content that contains the end marker: the second
  application ends the region at the end marker inside the content, and the rest of the
  first replacement stays behind it.
\<close>

theorem end_marker_in_content_counterexample:
  "re_sub activity_start activity_end (activity_section activity_end)
      (activity_start @ activity_end)
     = Inr (activity_start @ [nl] @ activity_end @ [nl] @ activity_end)
   \<and> re_sub activity_start activity_end (activity_section activity_end)
      (activity_start @ [nl] @ activity_end @ [nl] @ activity_end)
     = Inr (activity_start @ [nl] @ activity_end @ [nl] @ activity_end @ [nl] @ activity_end)
   \<and> activity_start @ [nl] @ activity_end @ [nl] @ activity_end
     \<noteq> activity_start @ [nl] @ activity_end @ [nl] @ activity_end @ [nl] @ activity_end"
proof -
  let ?R = "activity_section activity_end"
  have b: "backslash \<notin> set ?R"
    by (rule sections_no_backslash) (rule markers_no_backslash)
  have f: "\<not> sublist activity_start ([] @ butlast activity_start)"
    "\<not> sublist activity_end ([] @ butlast activity_end)"
    "\<not> sublist activity_end ([nl] @ butlast activity_end)"
    by (simp_all add: marker_defs sublist_Cons_right nl_def)
  have e: "re_search activity_start activity_end [] = None" by (simp add: marker_defs)
  have e2: "re_search activity_start activity_end ([nl] @ activity_end) = None"
    by (rule re_search_None) (simp add: marker_defs sublist_Cons_right nl_def)
  have 1: "sub_all activity_start activity_end (\<lambda>m. ?R) (activity_start @ activity_end) = ?R"
    using sub_all_region[OF f(1,2), of "\<lambda>m. ?R" "[]"] sub_all_None[OF e, of "\<lambda>m. ?R"]
    by simp
  have 2: "sub_all activity_start activity_end (\<lambda>m. ?R)
             (activity_start @ [nl] @ activity_end @ [nl] @ activity_end)
           = ?R @ [nl] @ activity_end"
    using sub_all_region[OF f(1,3), of "\<lambda>m. ?R" "[nl] @ activity_end"]
      sub_all_None[OF e2, of "\<lambda>m. ?R"]
    by simp
  have 3: "activity_start @ [nl] @ activity_end @ [nl] @ activity_end
     \<noteq> activity_start @ [nl] @ activity_end @ [nl] @ activity_end @ [nl] @ activity_end"
    by simp
  show ?thesis
    unfolding re_sub_literal[OF b] 1 2 using 3 by (simp add: activity_section_def)
qed

section \<open>Events and their analysis\<close>

text \<open>
  An event is a JSON object of the remote interface. A key the script looks up with
  \<open>[...]\<close> may be missing, so it is an option: the lookup of a missing key raises
  \<open>KeyError\<close>. A key that is present has a value of the shape the interface gives
  it: the \<open>created_at\<close> string parses and is kept as the instant the script parses it
  to (a whole number of seconds), \<open>repo\<close>, \<open>payload\<close> and \<open>pull_request\<close> are
  objects, the commits are a list.
\<close>

record pull_request =
  pr_merged :: "bool option"

record payload =
  pl_commits :: "string list option"
  pl_action :: "string option"
  pl_pull_request :: "pull_request option"
  pl_ref_type :: "string option"

record repo =
  repo_name :: "string option"

record event =
  ev_created_at :: "datetime option"
  ev_type :: "string option"
  ev_repo :: "repo option"
  ev_payload :: "payload option"

text \<open>The \<open>stats\<close> dictionary while the loop runs; \<open>events_by_day\<close> keeps the days in
  the order of their first event, as a Python dictionary does.\<close>

record stats =
  commits :: nat
  prs_opened :: nat
  prs_merged :: nat
  issues_opened :: nat
  issues_commented :: nat
  repos_contributed :: "string set"
  review_comments :: nat
  stars_given :: nat
  repos_created :: nat
  events_by_day :: "(string \<times> nat) list"

text \<open>The dictionary \<open>analyze_events\<close> returns: \<open>repos_contributed\<close> is now the size of
  the set.\<close>

record final_stats =
  f_commits :: nat
  f_prs_opened :: nat
  f_prs_merged :: nat
  f_issues_opened :: nat
  f_issues_commented :: nat
  f_repos_contributed :: nat
  f_review_comments :: nat
  f_stars_given :: nat
  f_repos_created :: nat
  f_events_by_day :: "(string \<times> nat) list"

definition initial_stats :: stats where
  "initial_stats = \<lparr>commits = 0, prs_opened = 0, prs_merged = 0, issues_opened = 0,
     issues_commented = 0, repos_contributed = {}, review_comments = 0, stars_given = 0,
     repos_created = 0, events_by_day = []\<rparr>"

text \<open>\<open>d[key] += 1\<close> on a \<open>defaultdict(int)\<close>.\<close>

fun bump :: "string \<Rightarrow> (string \<times> nat) list \<Rightarrow> (string \<times> nat) list" where
  "bump k [] = [(k, 1)]"
| "bump k ((k', n) # rest) = (if k = k' then (k', n + 1) # rest else (k', n) # bump k rest)"

text \<open>\<open>d[key]\<close>: the value, or \<open>KeyError\<close>.\<close>

definition lookup :: "string \<Rightarrow> 'a option \<Rightarrow> py_error + 'a" where
  "lookup key field = (case field of None \<Rightarrow> Inl (KeyError key) | Some v \<Rightarrow> Inr v)"

definition bind :: "py_error + 'a \<Rightarrow> ('a \<Rightarrow> py_error + 'b) \<Rightarrow> py_error + 'b" where
  "bind r f = (case r of Inl e \<Rightarrow> Inl e | Inr v \<Rightarrow> f v)"

text \<open>The branch on the event type, lines 94 to 110.\<close>

definition count_event :: "string \<Rightarrow> event \<Rightarrow> stats \<Rightarrow> py_error + stats" where
  "count_event event_type ev st =
     (if event_type = ''PushEvent'' then
        bind (lookup ''payload'' (ev_payload ev)) (\<lambda>p.
          Inr (st\<lparr>commits := commits st
                  + length (case pl_commits p of None \<Rightarrow> [] | Some cs \<Rightarrow> cs)\<rparr>))
      else if event_type = ''PullRequestEvent'' then
        bind (lookup ''payload'' (ev_payload ev)) (\<lambda>p.
        bind (lookup ''action'' (pl_action p)) (\<lambda>action.
          if action = ''opened'' then Inr (st\<lparr>prs_opened := prs_opened st + 1\<rparr>)
          else if action = ''closed'' then
            bind (lookup ''pull_request'' (pl_pull_request p)) (\<lambda>pr.
              if pr_merged pr = Some True then Inr (st\<lparr>prs_merged := prs_merged st + 1\<rparr>)
              else Inr st)
          else Inr st))
      else if event_type = ''IssuesEvent'' then
        bind (lookup ''payload'' (ev_payload ev)) (\<lambda>p.
        bind (lookup ''action'' (pl_action p)) (\<lambda>action.
          if action = ''opened'' then Inr (st\<lparr>issues_opened := issues_opened st + 1\<rparr>)
          else Inr st))
      else if event_type = ''IssueCommentEvent'' then
        Inr (st\<lparr>issues_commented := issues_commented st + 1\<rparr>)
      else if event_type = ''PullRequestReviewCommentEvent'' then
        Inr (st\<lparr>review_comments := review_comments st + 1\<rparr>)
      else if event_type = ''WatchEvent'' then
        Inr (st\<lparr>stars_given := stars_given st + 1\<rparr>)
      else if event_type = ''CreateEvent'' then
        bind (lookup ''payload'' (ev_payload ev)) (\<lambda>p.
        bind (lookup ''ref_type'' (pl_ref_type p)) (\<lambda>ref_type.
          if ref_type = ''repository'' then Inr (st\<lparr>repos_created := repos_created st + 1\<rparr>)
          else Inr st))
      else Inr st)"

text \<open>One turn of the loop over the events.\<close>

definition analyze_event :: "datetime \<Rightarrow> event \<Rightarrow> stats \<Rightarrow> py_error + stats" where
  "analyze_event thirty_days_ago ev st =
     bind (lookup ''created_at'' (ev_created_at ev)) (\<lambda>event_date.
       if event_date < thirty_days_ago then Inr st
       else
         bind (lookup ''type'' (ev_type ev)) (\<lambda>event_type.
         bind (lookup ''repo'' (ev_repo ev)) (\<lambda>r.
         bind (lookup ''name'' (repo_name r)) (\<lambda>name.
           count_event event_type ev
             (st\<lparr>events_by_day := bump (fmt_ymd event_date) (events_by_day st),
                 repos_contributed := insert name (repos_contributed st)\<rparr>)))))"

fun analyze_loop :: "datetime \<Rightarrow> event list \<Rightarrow> stats \<Rightarrow> py_error + stats" where
  "analyze_loop thirty_days_ago [] st = Inr st"
| "analyze_loop thirty_days_ago (ev # evs) st =
     bind (analyze_event thirty_days_ago ev st) (analyze_loop thirty_days_ago evs)"

definition finish :: "stats \<Rightarrow> final_stats" where
  "finish st = \<lparr>f_commits = commits st, f_prs_opened = prs_opened st,
     f_prs_merged = prs_merged st, f_issues_opened = issues_opened st,
     f_issues_commented = issues_commented st,
     f_repos_contributed = card (repos_contributed st),
     f_review_comments = review_comments st, f_stars_given = stars_given st,
     f_repos_created = repos_created st, f_events_by_day = events_by_day st\<rparr>"

text \<open>\<open>analyze_events\<close>; \<open>now\<close> is the clock read at its first line.\<close>

definition analyze_events :: "datetime \<Rightarrow> event list \<Rightarrow> py_error + final_stats" where
  "analyze_events now events =
     bind (minus_days now 30) (\<lambda>thirty_days_ago.
     bind (analyze_loop thirty_days_ago events initial_stats) (\<lambda>st. Inr (finish st)))"

section \<open>What the analysis counts\<close>

definition in_window :: "datetime \<Rightarrow> event \<Rightarrow> bool" where
  "in_window boundary ev \<longleftrightarrow>
     (case ev_created_at ev of None \<Rightarrow> False | Some t \<Rightarrow> \<not> t < boundary)"

definition before_window :: "datetime \<Rightarrow> event \<Rightarrow> bool" where
  "before_window boundary ev \<longleftrightarrow>
     (case ev_created_at ev of None \<Rightarrow> False | Some t \<Rightarrow> t < boundary)"

definition name_of :: "event \<Rightarrow> string option" where
  "name_of ev = (case ev_repo ev of None \<Rightarrow> None | Some r \<Rightarrow> repo_name r)"

definition repo_names :: "event list \<Rightarrow> string set" where
  "repo_names evs = set (List.map_filter name_of evs)"

definition commit_count :: "event \<Rightarrow> nat" where
  "commit_count ev =
     (case ev_payload ev of
        None \<Rightarrow> 0
      | Some p \<Rightarrow> (case pl_commits p of None \<Rightarrow> 0 | Some cs \<Rightarrow> length cs))"

definition is_push :: "event \<Rightarrow> bool" where
  "is_push ev \<longleftrightarrow> ev_type ev = Some ''PushEvent''"

lemma bind_Inr [simp]: "bind (Inr v) f = f v"
  by (simp add: bind_def)

lemma bind_Inl [simp]: "bind (Inl e) f = Inl e"
  by (simp add: bind_def)

lemma bind_eq_Inr: "bind r f = Inr y \<longleftrightarrow> (\<exists>v. r = Inr v \<and> f v = Inr y)"
  by (cases r) simp_all

lemma lookup_eq_Inr [simp]: "lookup k field = Inr v \<longleftrightarrow> field = Some v"
  by (cases field) (simp_all add: lookup_def)

lemma count_event_effect:
  assumes "count_event ty ev st = Inr st'"
  shows "repos_contributed st' = repos_contributed st"
    and "commits st' = commits st + (if ty = ''PushEvent'' then commit_count ev else 0)"
proof -
  consider "ty = ''PushEvent''" | "ty \<noteq> ''PushEvent''" "ty = ''PullRequestEvent''"
    | "ty \<noteq> ''PushEvent''" "ty \<noteq> ''PullRequestEvent''" "ty = ''IssuesEvent''"
    | "ty \<noteq> ''PushEvent''" "ty \<noteq> ''PullRequestEvent''" "ty \<noteq> ''IssuesEvent''"
      "ty = ''CreateEvent''"
    | "ty \<noteq> ''PushEvent''" "ty \<noteq> ''PullRequestEvent''" "ty \<noteq> ''IssuesEvent''"
      "ty \<noteq> ''CreateEvent''"
    by blast
  then have "repos_contributed st' = repos_contributed st
    \<and> commits st' = commits st + (if ty = ''PushEvent'' then commit_count ev else 0)"
  proof cases
    case 1
    with assms obtain p where "ev_payload ev = Some p"
      "st' = st\<lparr>commits := commits st
                  + length (case pl_commits p of None \<Rightarrow> [] | Some cs \<Rightarrow> cs)\<rparr>"
      by (auto simp: count_event_def bind_eq_Inr)
    with 1 show ?thesis
      by (simp add: commit_count_def split: option.splits)
  next
    case 2
    with assms show ?thesis
      unfolding count_event_def by (auto simp: bind_eq_Inr split: if_splits)
  next
    case 3
    with assms show ?thesis
      unfolding count_event_def by (auto simp: bind_eq_Inr split: if_splits)
  next
    case 4
    with assms show ?thesis
      unfolding count_event_def by (auto simp: bind_eq_Inr split: if_splits)
  next
    case 5
    with assms show ?thesis
      unfolding count_event_def by (auto split: if_splits)
  qed
  then show "repos_contributed st' = repos_contributed st"
    and "commits st' = commits st + (if ty = ''PushEvent'' then commit_count ev else 0)"
    by simp_all
qed

lemma analyze_event_before:
  "before_window b ev \<Longrightarrow> analyze_event b ev st = Inr st"
  by (auto simp: before_window_def analyze_event_def lookup_def split: option.splits)

lemma analyze_event_in:
  assumes "analyze_event b ev st = Inr st'" "\<not> before_window b ev"
  shows "in_window b ev"
    and "\<exists>n. name_of ev = Some n \<and> repos_contributed st' = insert n (repos_contributed st)"
    and "commits st' = commits st + (if is_push ev then commit_count ev else 0)"
proof -
  from assms obtain t where t: "ev_created_at ev = Some t" "\<not> t < b"
    by (auto simp: analyze_event_def bind_eq_Inr before_window_def)
  with assms(1) obtain ty r n where f: "ev_type ev = Some ty" "ev_repo ev = Some r"
    "repo_name r = Some n"
    and c: "count_event ty ev
             (st\<lparr>events_by_day := bump (fmt_ymd t) (events_by_day st),
                 repos_contributed := insert n (repos_contributed st)\<rparr>) = Inr st'"
    by (auto simp: analyze_event_def bind_eq_Inr)
  from t show "in_window b ev" by (simp add: in_window_def)
  from count_event_effect(1)[OF c] f
  show "\<exists>n. name_of ev = Some n \<and> repos_contributed st' = insert n (repos_contributed st)"
    by (simp add: name_of_def)
  from count_event_effect(2)[OF c] f
  show "commits st' = commits st + (if is_push ev then commit_count ev else 0)"
    by (simp add: is_push_def)
qed

lemma window_cases: "ev_created_at ev \<noteq> None \<Longrightarrow> before_window b ev \<longleftrightarrow> \<not> in_window b ev"
  by (auto simp: before_window_def in_window_def)

lemma analyze_loop_filter:
  "analyze_loop b (filter (\<lambda>ev. \<not> before_window b ev) evs) st = analyze_loop b evs st"
proof (induction evs arbitrary: st)
  case Nil
  then show ?case by simp
next
  case (Cons ev evs)
  show ?case
  proof (cases "before_window b ev")
    case True
    with Cons show ?thesis by (simp add: analyze_event_before)
  next
    case False
    with Cons show ?thesis by (cases "analyze_event b ev st") simp_all
  qed
qed

lemma analyze_loop_counts:
  "analyze_loop b evs st = Inr st' \<Longrightarrow>
     repos_contributed st' = repos_contributed st \<union> repo_names (filter (in_window b) evs)
     \<and> commits st' = commits st
         + sum_list (map commit_count (filter (\<lambda>ev. in_window b ev \<and> is_push ev) evs))"
proof (induction evs arbitrary: st)
  case Nil
  then show ?case by (simp add: repo_names_def List.map_filter_simps)
next
  case (Cons ev evs)
  from Cons.prems obtain st1 where s1: "analyze_event b ev st = Inr st1"
    and s2: "analyze_loop b evs st1 = Inr st'"
    by (auto simp: bind_eq_Inr)
  note ih = Cons.IH[OF s2]
  show ?case
  proof (cases "before_window b ev")
    case True
    then have "\<not> in_window b ev" by (auto simp: before_window_def in_window_def split: option.splits)
    with ih analyze_event_before[OF True, of st] s1 show ?thesis by simp
  next
    case False
    from analyze_event_in[OF s1 False] obtain n where
      n: "in_window b ev" "name_of ev = Some n"
      "repos_contributed st1 = insert n (repos_contributed st)"
      "commits st1 = commits st + (if is_push ev then commit_count ev else 0)"
      by blast
    with ih show ?thesis
      by (auto simp: repo_names_def List.map_filter_simps)
  qed
qed

text \<open>
  Claim C4. \<open>analyze_events\<close> gives the same result with and without the events whose
  time stamp lies before the boundary of the thirty days; when it returns, its
  \<open>repos_contributed\<close> is the number of different repository names of the events in the
  window, and its \<open>commits\<close> is the sum, over the push events in the window, of the length
  of the commit list.
\<close>

theorem analyze_events_counts:
  assumes "minus_days now 30 = Inr boundary"
  shows "analyze_events now events
           = analyze_events now (filter (\<lambda>ev. \<not> before_window boundary ev) events)
         \<and> (\<forall>st. analyze_events now events = Inr st \<longrightarrow>
               f_repos_contributed st = card (repo_names (filter (in_window boundary) events))
               \<and> f_commits st
                   = sum_list (map commit_count
                       (filter (\<lambda>ev. in_window boundary ev \<and> is_push ev) events)))"
proof -
  have "analyze_events now events
           = analyze_events now (filter (\<lambda>ev. \<not> before_window boundary ev) events)"
    by (simp add: analyze_events_def assms analyze_loop_filter)
  moreover have "f_repos_contributed st = card (repo_names (filter (in_window boundary) events))
               \<and> f_commits st
                   = sum_list (map commit_count
                       (filter (\<lambda>ev. in_window boundary ev \<and> is_push ev) events))"
    if "analyze_events now events = Inr st" for st
  proof -
    from that assms obtain s where s: "analyze_loop boundary events initial_stats = Inr s"
      "st = finish s"
      by (auto simp: analyze_events_def bind_eq_Inr)
    from analyze_loop_counts[OF s(1)] s(2) show ?thesis
      by (simp add: finish_def initial_stats_def)
  qed
  ultimately show ?thesis by blast
qed


section \<open>When the analysis returns\<close>

definition payload_ok :: "string \<Rightarrow> payload option \<Rightarrow> bool" where
  "payload_ok event_type po =
     (if event_type = ''PushEvent'' then po \<noteq> None
      else if event_type = ''PullRequestEvent'' then
        (case po of
           None \<Rightarrow> False
         | Some p \<Rightarrow> (case pl_action p of
                        None \<Rightarrow> False
                      | Some a \<Rightarrow> a = ''closed'' \<longrightarrow> pl_pull_request p \<noteq> None))
      else if event_type = ''IssuesEvent'' then
        (case po of None \<Rightarrow> False | Some p \<Rightarrow> pl_action p \<noteq> None)
      else if event_type = ''CreateEvent'' then
        (case po of None \<Rightarrow> False | Some p \<Rightarrow> pl_ref_type p \<noteq> None)
      else True)"

definition well_formed :: "event \<Rightarrow> bool" where
  "well_formed ev \<longleftrightarrow>
     (case ev_type ev of
        None \<Rightarrow> False
      | Some event_type \<Rightarrow> name_of ev \<noteq> None \<and> payload_ok event_type (ev_payload ev))"

lemma bind_lookup_ex:
  "(\<exists>y. bind (lookup k field) f = Inr y) \<longleftrightarrow> (\<exists>v. field = Some v \<and> (\<exists>y. f v = Inr y))"
  by (cases field) (simp_all add: lookup_def)

lemma count_event_total:
  "(\<exists>st'. count_event ty ev st = Inr st') \<longleftrightarrow> payload_ok ty (ev_payload ev)"
proof -
  consider "ty = ''PushEvent''" | "ty \<noteq> ''PushEvent''" "ty = ''PullRequestEvent''"
    | "ty \<noteq> ''PushEvent''" "ty \<noteq> ''PullRequestEvent''" "ty = ''IssuesEvent''"
    | "ty \<noteq> ''PushEvent''" "ty \<noteq> ''PullRequestEvent''" "ty \<noteq> ''IssuesEvent''"
      "ty = ''CreateEvent''"
    | "ty \<noteq> ''PushEvent''" "ty \<noteq> ''PullRequestEvent''" "ty \<noteq> ''IssuesEvent''"
      "ty \<noteq> ''CreateEvent''"
    by blast
  then show ?thesis
  proof cases
    case 1
    then show ?thesis
      by (simp add: count_event_def payload_ok_def bind_lookup_ex)
  next
    case 2
    then show ?thesis
      by (cases "ev_payload ev")
        (auto simp: count_event_def payload_ok_def bind_lookup_ex lookup_def
          split: option.splits)
  next
    case 3
    then show ?thesis
      by (cases "ev_payload ev")
        (auto simp: count_event_def payload_ok_def bind_lookup_ex lookup_def
          split: option.splits)
  next
    case 4
    then show ?thesis
      by (cases "ev_payload ev")
        (auto simp: count_event_def payload_ok_def bind_lookup_ex lookup_def
          split: option.splits)
  next
    case 5
    then show ?thesis
      by (simp add: count_event_def payload_ok_def)
  qed
qed

lemma analyze_event_total:
  "(\<exists>st'. analyze_event b ev st = Inr st')
     \<longleftrightarrow> ev_created_at ev \<noteq> None \<and> (in_window b ev \<longrightarrow> well_formed ev)"
proof (cases "ev_created_at ev")
  case None
  then show ?thesis by (simp add: analyze_event_def lookup_def)
next
  case (Some t)
  show ?thesis
  proof (cases "t < b")
    case True
    with Some show ?thesis by (simp add: analyze_event_def lookup_def in_window_def)
  next
    case False
    with Some show ?thesis
      by (simp add: analyze_event_def in_window_def well_formed_def name_of_def
          bind_lookup_ex count_event_total split: option.splits)
  qed
qed

lemma analyze_loop_total:
  "(\<exists>st'. analyze_loop b evs st = Inr st')
     \<longleftrightarrow> (\<forall>ev \<in> set evs. ev_created_at ev \<noteq> None \<and> (in_window b ev \<longrightarrow> well_formed ev))"
proof (induction evs arbitrary: st)
  case Nil
  then show ?case by simp
next
  case (Cons ev evs)
  show ?case
  proof (cases "analyze_event b ev st")
    case (Inl e)
    then have "\<not> (\<exists>st'. analyze_event b ev st = Inr st')" by simp
    with Inl show ?thesis unfolding analyze_event_total by auto
  next
    case (Inr st1)
    then have "\<exists>st'. analyze_event b ev st = Inr st'" by simp
    then have "ev_created_at ev \<noteq> None \<and> (in_window b ev \<longrightarrow> well_formed ev)"
      unfolding analyze_event_total .
    with Inr Cons.IH[of st1] show ?thesis by simp
  qed
qed

lemma bind_lookup_Inl:
  "bind (lookup k field) f = Inl e
     \<longleftrightarrow> (field = None \<and> e = KeyError k) \<or> (\<exists>v. field = Some v \<and> f v = Inl e)"
  by (cases field) (auto simp: lookup_def)

lemma count_event_error:
  assumes "count_event ty ev st = Inl e"
  shows "\<exists>k. e = KeyError k"
proof -
  consider "ty = ''PushEvent''" | "ty \<noteq> ''PushEvent''" "ty = ''PullRequestEvent''"
    | "ty \<noteq> ''PushEvent''" "ty \<noteq> ''PullRequestEvent''" "ty = ''IssuesEvent''"
    | "ty \<noteq> ''PushEvent''" "ty \<noteq> ''PullRequestEvent''" "ty \<noteq> ''IssuesEvent''"
      "ty = ''CreateEvent''"
    | "ty \<noteq> ''PushEvent''" "ty \<noteq> ''PullRequestEvent''" "ty \<noteq> ''IssuesEvent''"
      "ty \<noteq> ''CreateEvent''"
    by blast
  then show ?thesis
  proof cases
    case 1
    with assms show ?thesis by (auto simp: count_event_def bind_lookup_Inl)
  next
    case 2
    with assms show ?thesis
      by (auto simp: count_event_def bind_lookup_Inl split: if_splits)
  next
    case 3
    with assms show ?thesis
      by (auto simp: count_event_def bind_lookup_Inl split: if_splits)
  next
    case 4
    with assms show ?thesis
      by (auto simp: count_event_def bind_lookup_Inl split: if_splits)
  next
    case 5
    with assms show ?thesis by (simp add: count_event_def split: if_splits)
  qed
qed

lemma analyze_event_error:
  assumes "analyze_event b ev st = Inl e"
  shows "\<exists>k. e = KeyError k"
  using assms
  by (auto simp: analyze_event_def bind_lookup_Inl split: if_splits dest: count_event_error)

lemma analyze_loop_error:
  "analyze_loop b evs st = Inl e \<Longrightarrow> \<exists>k. e = KeyError k"
proof (induction evs arbitrary: st)
  case Nil
  then show ?case by simp
next
  case (Cons ev evs)
  show ?case
  proof (cases "analyze_event b ev st")
    case (Inl e')
    with Cons.prems have "e' = e" by simp
    with Inl show ?thesis by (auto dest: analyze_event_error)
  next
    case (Inr st1)
    with Cons.prems have "analyze_loop b evs st1 = Inl e" by simp
    then show ?thesis by (rule Cons.IH)
  qed
qed

text \<open>
  Claim C10. The lookups of \<open>created_at\<close>, \<open>type\<close>, the repository and its \<open>name\<close>,
  and, in the payload, of \<open>action\<close> for a pull request or issues event, of
  \<open>pull_request\<close> for a closed pull request and of \<open>ref_type\<close> for a create event are
  unguarded: each raises \<open>KeyError\<close> when the key is missing, and \<open>analyze_events\<close> fails
  with a \<open>KeyError\<close> whenever some event lacks \<open>created_at\<close> or some event inside the
  window lacks another of these keys. The commit list of a push event is read with a
  default: a push event whose payload has no commit list counts no commits and the
  function returns.
\<close>

theorem analyze_events_unguarded_lookups:
  assumes "minus_days now 30 = Inr boundary"
  shows "((\<exists>ev \<in> set events.
             ev_created_at ev = None \<or> (in_window boundary ev \<and> \<not> well_formed ev))
          \<longrightarrow> (\<exists>k. analyze_events now events = Inl (KeyError k)))
     \<and> (\<forall>ev st. ev_created_at ev = None
           \<longrightarrow> analyze_event boundary ev st = Inl (KeyError ''created_at''))
     \<and> (\<forall>ev st. in_window boundary ev \<and> ev_type ev = None
           \<longrightarrow> analyze_event boundary ev st = Inl (KeyError ''type''))
     \<and> (\<forall>ev st. in_window boundary ev \<and> ev_type ev \<noteq> None \<and> ev_repo ev = None
           \<longrightarrow> analyze_event boundary ev st = Inl (KeyError ''repo''))
     \<and> (\<forall>ev st r. in_window boundary ev \<and> ev_type ev \<noteq> None \<and> ev_repo ev = Some r
             \<and> repo_name r = None
           \<longrightarrow> analyze_event boundary ev st = Inl (KeyError ''name''))
     \<and> (\<forall>ev st p. ev_payload ev = Some p \<and> pl_action p = None
           \<longrightarrow> count_event ''PullRequestEvent'' ev st = Inl (KeyError ''action'')
               \<and> count_event ''IssuesEvent'' ev st = Inl (KeyError ''action''))
     \<and> (\<forall>ev st p. ev_payload ev = Some p \<and> pl_action p = Some ''closed''
             \<and> pl_pull_request p = None
           \<longrightarrow> count_event ''PullRequestEvent'' ev st = Inl (KeyError ''pull_request''))
     \<and> (\<forall>ev st p. ev_payload ev = Some p \<and> pl_ref_type p = None
           \<longrightarrow> count_event ''CreateEvent'' ev st = Inl (KeyError ''ref_type''))
     \<and> (\<forall>ev st p. ev_payload ev = Some p \<and> pl_commits p = None
           \<longrightarrow> count_event ''PushEvent'' ev st = Inr st)
     \<and> (\<forall>ev p. in_window boundary ev \<and> ev_type ev = Some ''PushEvent''
             \<and> name_of ev \<noteq> None \<and> ev_payload ev = Some p \<and> pl_commits p = None
           \<longrightarrow> (\<exists>st. analyze_events now [ev] = Inr st \<and> f_commits st = 0))"
proof -
  have 1: "\<exists>k. analyze_events now events = Inl (KeyError k)"
    if "\<exists>ev \<in> set events.
             ev_created_at ev = None \<or> (in_window boundary ev \<and> \<not> well_formed ev)"
  proof -
    from that have "\<not> (\<forall>ev \<in> set events.
        ev_created_at ev \<noteq> None \<and> (in_window boundary ev \<longrightarrow> well_formed ev))"
      by blast
    then have "\<not> (\<exists>st'. analyze_loop boundary events initial_stats = Inr st')"
      unfolding analyze_loop_total .
    then obtain e where e: "analyze_loop boundary events initial_stats = Inl e"
      by (cases "analyze_loop boundary events initial_stats") auto
    from analyze_loop_error[OF e] obtain k where "e = KeyError k" ..
    with e show ?thesis by (simp add: analyze_events_def assms)
  qed
  have 2: "\<forall>ev st. ev_created_at ev = None
           \<longrightarrow> analyze_event boundary ev st = Inl (KeyError ''created_at'')"
    by (simp add: analyze_event_def lookup_def)
  have 3: "\<forall>ev st. in_window boundary ev \<and> ev_type ev = None
           \<longrightarrow> analyze_event boundary ev st = Inl (KeyError ''type'')"
    by (auto simp: analyze_event_def lookup_def in_window_def split: option.splits)
  have 4: "\<forall>ev st. in_window boundary ev \<and> ev_type ev \<noteq> None \<and> ev_repo ev = None
           \<longrightarrow> analyze_event boundary ev st = Inl (KeyError ''repo'')"
    by (auto simp: analyze_event_def lookup_def in_window_def split: option.splits)
  have 5: "\<forall>ev st r. in_window boundary ev \<and> ev_type ev \<noteq> None \<and> ev_repo ev = Some r
             \<and> repo_name r = None
           \<longrightarrow> analyze_event boundary ev st = Inl (KeyError ''name'')"
    by (auto simp: analyze_event_def lookup_def in_window_def split: option.splits)
  have 6: "\<forall>ev st p. ev_payload ev = Some p \<and> pl_action p = None
           \<longrightarrow> count_event ''PullRequestEvent'' ev st = Inl (KeyError ''action'')
               \<and> count_event ''IssuesEvent'' ev st = Inl (KeyError ''action'')"
    by (simp add: count_event_def lookup_def)
  have 7: "\<forall>ev st p. ev_payload ev = Some p \<and> pl_action p = Some ''closed''
             \<and> pl_pull_request p = None
           \<longrightarrow> count_event ''PullRequestEvent'' ev st = Inl (KeyError ''pull_request'')"
    by (simp add: count_event_def lookup_def)
  have 8: "\<forall>ev st p. ev_payload ev = Some p \<and> pl_ref_type p = None
           \<longrightarrow> count_event ''CreateEvent'' ev st = Inl (KeyError ''ref_type'')"
    by (simp add: count_event_def lookup_def)
  have 9: "\<forall>ev st p. ev_payload ev = Some p \<and> pl_commits p = None
           \<longrightarrow> count_event ''PushEvent'' ev st = Inr st"
    by (simp add: count_event_def lookup_def)
  have 10: "\<exists>st. analyze_events now [ev] = Inr st \<and> f_commits st = 0"
    if h: "in_window boundary ev \<and> ev_type ev = Some ''PushEvent''
             \<and> name_of ev \<noteq> None \<and> ev_payload ev = Some p \<and> pl_commits p = None"
    for ev p
  proof -
    from h obtain t where t: "ev_created_at ev = Some t" "\<not> t < boundary"
      by (auto simp: in_window_def split: option.splits)
    from h obtain r name where r: "ev_repo ev = Some r" "repo_name r = Some name"
      by (auto simp: name_of_def split: option.splits)
    have "analyze_events now [ev]
        = Inr (finish (initial_stats\<lparr>events_by_day := bump (fmt_ymd t) (events_by_day initial_stats),
                 repos_contributed := insert name (repos_contributed initial_stats)\<rparr>))"
      using h t r
      by (simp add: analyze_events_def assms analyze_event_def lookup_def count_event_def)
    then show ?thesis by (simp add: finish_def initial_stats_def)
  qed
  from 1 2 3 4 5 6 7 8 9 10 show ?thesis by blast
qed

theorem analyze_events_unguarded_lookups_witness:
  "(\<exists>k. analyze_events 63897984000000000
      [\<lparr>ev_created_at = Some 63897000000000000, ev_type = Some ''IssuesEvent'',
        ev_repo = Some \<lparr>repo_name = Some ''me/site''\<rparr>,
        ev_payload = Some \<lparr>pl_commits = None, pl_action = None,
                           pl_pull_request = None, pl_ref_type = None\<rparr>\<rparr>]
       = Inl (KeyError k))
   \<and> (\<exists>st. analyze_events 63897984000000000
      [\<lparr>ev_created_at = Some 63897000000000000, ev_type = Some ''PushEvent'',
        ev_repo = Some \<lparr>repo_name = Some ''me/site''\<rparr>,
        ev_payload = Some \<lparr>pl_commits = None, pl_action = None,
                           pl_pull_request = None, pl_ref_type = None\<rparr>\<rparr>] = Inr st
       \<and> f_commits st = 0)"
proof -
  let ?p = "\<lparr>pl_commits = None, pl_action = None, pl_pull_request = None, pl_ref_type = None\<rparr>"
  let ?issue = "\<lparr>ev_created_at = Some 63897000000000000, ev_type = Some ''IssuesEvent'',
        ev_repo = Some \<lparr>repo_name = Some ''me/site''\<rparr>, ev_payload = Some ?p\<rparr>"
  let ?push = "\<lparr>ev_created_at = Some 63897000000000000, ev_type = Some ''PushEvent'',
        ev_repo = Some \<lparr>repo_name = Some ''me/site''\<rparr>, ev_payload = Some ?p\<rparr>"
  have h: "minus_days 63897984000000000 30 = Inr 63895392000000000"
    by (simp add: minus_days_def us_per_day_def)
  have a: "\<exists>ev \<in> set [?issue]. ev_created_at ev = None
      \<or> (in_window 63895392000000000 ev \<and> \<not> well_formed ev)"
    by (simp add: in_window_def well_formed_def name_of_def payload_ok_def)
  have b: "in_window 63895392000000000 ?push \<and> ev_type ?push = Some ''PushEvent''
      \<and> name_of ?push \<noteq> None \<and> ev_payload ?push = Some ?p \<and> pl_commits ?p = None"
    by (simp add: in_window_def name_of_def)
  from analyze_events_unguarded_lookups[OF h, of "[?issue]"] a
  have 1: "\<exists>k. analyze_events 63897984000000000 [?issue] = Inl (KeyError k)" by blast
  from analyze_events_unguarded_lookups[OF h, of "[]"] b
  have 2: "\<exists>st. analyze_events 63897984000000000 [?push] = Inr st \<and> f_commits st = 0"
    by blast
  from 1 2 show ?thesis by (rule conjI)
qed

text \<open>An event before the window is skipped once its \<open>created_at\<close> is read: it may lack
  every other key.\<close>

lemma skipped_event_needs_no_keys:
  "analyze_events 63897984000000000
      [\<lparr>ev_created_at = Some 63000000000000000, ev_type = None, ev_repo = None,
        ev_payload = None\<rparr>] = Inr (finish initial_stats)"
  by (simp add: analyze_events_def minus_days_def us_per_day_def analyze_event_def lookup_def)

theorem analyze_events_counts_witness:
  "\<exists>st. analyze_events 63897984000000000
      [\<lparr>ev_created_at = Some 63897000000000000, ev_type = Some ''PushEvent'',
        ev_repo = Some \<lparr>repo_name = Some ''me/site''\<rparr>,
        ev_payload = Some \<lparr>pl_commits = Some [''c1'', ''c2''], pl_action = None,
                           pl_pull_request = None, pl_ref_type = None\<rparr>\<rparr>,
       \<lparr>ev_created_at = Some 63000000000000000, ev_type = Some ''PushEvent'',
        ev_repo = Some \<lparr>repo_name = Some ''me/old''\<rparr>,
        ev_payload = Some \<lparr>pl_commits = Some [''c0''], pl_action = None,
                           pl_pull_request = None, pl_ref_type = None\<rparr>\<rparr>] = Inr st
     \<and> f_repos_contributed st = 1 \<and> f_commits st = 2"
proof -
  let ?e1 = "\<lparr>ev_created_at = Some 63897000000000000, ev_type = Some ''PushEvent'',
        ev_repo = Some \<lparr>repo_name = Some ''me/site''\<rparr>,
        ev_payload = Some \<lparr>pl_commits = Some [''c1'', ''c2''], pl_action = None,
                           pl_pull_request = None, pl_ref_type = None\<rparr>\<rparr>"
  let ?e2 = "\<lparr>ev_created_at = Some 63000000000000000, ev_type = Some ''PushEvent'',
        ev_repo = Some \<lparr>repo_name = Some ''me/old''\<rparr>,
        ev_payload = Some \<lparr>pl_commits = Some [''c0''], pl_action = None,
                           pl_pull_request = None, pl_ref_type = None\<rparr>\<rparr>"
  let ?B = "63895392000000000 :: nat"
  have h: "minus_days 63897984000000000 30 = Inr ?B"
    by (simp add: minus_days_def us_per_day_def)
  have w: "in_window ?B ?e1" "\<not> in_window ?B ?e2" "well_formed ?e1"
    by (simp_all add: in_window_def well_formed_def name_of_def payload_ok_def)
  then have "\<exists>s. analyze_loop ?B [?e1, ?e2] initial_stats = Inr s"
    unfolding analyze_loop_total by simp
  then obtain s where "analyze_loop ?B [?e1, ?e2] initial_stats = Inr s" ..
  then have a: "analyze_events 63897984000000000 [?e1, ?e2] = Inr (finish s)"
    by (simp only: analyze_events_def h bind_Inr)
  have n: "repo_names (filter (in_window ?B) [?e1, ?e2]) = {''me/site''}"
    by (simp add: w repo_names_def name_of_def List.map_filter_simps)
  have c: "sum_list (map commit_count (filter (\<lambda>ev. in_window ?B ev \<and> is_push ev) [?e1, ?e2]))
      = 2"
    by (simp add: w is_push_def commit_count_def)
  from analyze_events_counts[OF h, of "[?e1, ?e2]"] a
  have "f_repos_contributed (finish s) = card (repo_names (filter (in_window ?B) [?e1, ?e2]))
    \<and> f_commits (finish s) = sum_list (map commit_count
          (filter (\<lambda>ev. in_window ?B ev \<and> is_push ev) [?e1, ?e2]))"
    by blast
  then have "f_repos_contributed (finish s) = 1 \<and> f_commits (finish s) = 2"
    unfolding n c by simp
  with a show ?thesis by blast
qed

section \<open>Fetching the events\<close>

text \<open>
  The remote interface is a function from the page asked for to the response; \<open>clock\<close>
  gives the time read in the turn of the loop that fetched the page. The requests sent
  are part of the result: the page number and the \<open>per_page\<close> value of each.
\<close>

record response =
  status_code :: nat
  body :: "event list"




























section \<open>The profile and the rendered sections\<close>

text \<open>A value of the profile record, and \<open>str\<close> of it as an f-string prints it.\<close>

datatype jval = JInt int | JStr string | JNone

fun py_str :: "jval \<Rightarrow> string" where
  "py_str (JInt i) = str_int i"
| "py_str (JStr s) = s"
| "py_str JNone = ''None''"

record profile_response =
  p_status_code :: nat
  p_json :: "string \<rightharpoonup> jval"

definition fetch_user_stats :: "profile_response \<Rightarrow> (string \<rightharpoonup> jval)" where
  "fetch_user_stats response =
     (if p_status_code response = 200 then p_json response else Map.empty)"

text \<open>\<open>user_stats.get(key, 0)\<close>.\<close>

definition get_or_zero :: "(string \<rightharpoonup> jval) \<Rightarrow> string \<Rightarrow> jval" where
  "get_or_zero d key = (case d key of None \<Rightarrow> JInt 0 | Some v \<Rightarrow> v)"

text \<open>The icons of the source text, as the bytes of their UTF-8 encoding.\<close>

definition icon_summary :: string where
  "icon_summary = [CHR 0xEF, CHR 0xA3, CHR 0xBF, CHR 0xC3, CHR 0xBC, CHR 0xC3, CHR 0xA9,
                   CHR 0xC3, CHR 0x98]"

definition icon_highlights :: string where
  "icon_highlights = [CHR 0xEF, CHR 0xA3, CHR 0xBF, CHR 0xC3, CHR 0xBC, CHR 0xC3, CHR 0xAC,
                      CHR 0xC3, CHR 0xA0]"

definition icon_commits :: string where
  "icon_commits = [CHR 0xEF, CHR 0xA3, CHR 0xBF, CHR 0xC3, CHR 0xBC, CHR 0xC3, CHR 0xAE,
                   CHR 0xC2, CHR 0xAE]"

definition icon_prs :: string where
  "icon_prs = [CHR 0xEF, CHR 0xA3, CHR 0xBF, CHR 0xC3, CHR 0xBC, CHR 0xC3, CHR 0xAE,
               CHR 0xC3, CHR 0x84]"

definition icon_stars :: string where
  "icon_stars = [CHR 0xE2, CHR 0x80, CHR 0x9A, CHR 0xE2, CHR 0x89, CHR 0xA0, CHR 0xC3, CHR 0xAA]"

definition icon_repos :: string where
  "icon_repos = [CHR 0xEF, CHR 0xA3, CHR 0xBF, CHR 0xC3, CHR 0xBC, CHR 0xC3, CHR 0xAC,
                 CHR 0xC2, CHR 0xB6]"

definition fill_unit :: string where
  "fill_unit = [CHR 0xE2, CHR 0x80, CHR 0x9A, CHR 0xC3, CHR 0xB1, CHR 0xC3, CHR 0xA0]"

definition bar_separator :: string where
  "bar_separator = [CHR 0xE2, CHR 0x80, CHR 0x9A, CHR 0xC3, CHR 0xAE, CHR 0xC3, CHR 0x87]"

definition generate_stats_section :: "(string \<rightharpoonup> jval) \<Rightarrow> final_stats \<Rightarrow> string" where
  "generate_stats_section user_stats recent_stats =
     join [nl]
       [''![Followers](https://img.shields.io/badge/Followers-''
          @ py_str (get_or_zero user_stats ''followers'') @ ''-blue?style=flat-square)'',
        ''![Public Repos](https://img.shields.io/badge/Public_Repos-''
          @ py_str (get_or_zero user_stats ''public_repos'') @ ''-green?style=flat-square)'',
        ''![Total Stars](https://img.shields.io/badge/Total_Stars-''
          @ py_str (get_or_zero user_stats ''public_gists'') @ ''-yellow?style=flat-square)'',
        [],
        ''### '' @ icon_highlights @ '' This Month'' @ [CHR 0x27] @ ''s Highlights'',
        [],
        ''- '' @ icon_commits @ '' **'' @ str_nat (f_commits recent_stats) @ ''** commits'',
        ''- '' @ icon_prs @ '' **'' @ str_nat (f_prs_opened recent_stats) @ ''** PRs opened'',
        ''- '' @ icon_stars @ '' **'' @ str_nat (f_stars_given recent_stats)
          @ ''** repositories starred'',
        ''- '' @ icon_repos @ '' **'' @ str_nat (f_repos_created recent_stats)
          @ ''** new repositories created'']"

section \<open>The activity chart\<close>

text \<open>
  The bar length is computed in floating point: \<open>int((count / max_events) * 20)\<close>. A
  finite double is a whole number of units \<open>2 ^ - k\<close>, here the pair of the number and
  \<open>k\<close>. \<open>count / max_events\<close> is the quotient rounded to 53 bits, ties to even (to a
  multiple of \<open>2 ^ - 1074\<close> where the quotient is subnormal); the product with 20 is
  rounded in the same way; \<open>int\<close> cuts the fraction off.
\<close>

fun bitlen :: "nat \<Rightarrow> nat" where
  "bitlen n = (if n = 0 then 0 else Suc (bitlen (n div 2)))"

declare bitlen.simps [simp del]

text \<open>\<open>a / b\<close> rounded to the nearest whole number, ties to the even one.\<close>

definition rne_div :: "nat \<Rightarrow> nat \<Rightarrow> nat" where
  "rne_div a b =
     (let q = a div b; r = a mod b
      in if 2 * r < b then q
         else if 2 * r > b then q + 1
         else if even q then q else q + 1)"

text \<open>\<open>c / m\<close> for integers \<open>0 \<le> c \<le> m\<close>, \<open>0 < m\<close>.\<close>

definition float_div :: "nat \<Rightarrow> nat \<Rightarrow> nat \<times> nat" where
  "float_div c m =
     (if c = 0 then (0, 0)
      else
        let d = bitlen m - bitlen c;
            k = min 1074 (if m \<le> c * 2 ^ d then d + 52 else d + 53)
        in (rne_div (c * 2 ^ k) m, k))"

text \<open>The double \<open>(M, k)\<close> times the integer \<open>n\<close>.\<close>

definition float_mul :: "nat \<times> nat \<Rightarrow> nat \<Rightarrow> nat \<times> nat" where
  "float_mul x n =
     (case x of (M, k) \<Rightarrow>
        let N = M * n; e = bitlen N - 53
        in (rne_div N (2 ^ e) * 2 ^ e, k))"

text \<open>\<open>int(x)\<close> for a double that is not negative.\<close>

definition float_int :: "nat \<times> nat \<Rightarrow> nat" where
  "float_int x = (case x of (M, k) \<Rightarrow> M div 2 ^ k)"

definition bar_length :: "nat \<Rightarrow> nat \<Rightarrow> nat" where
  "bar_length count max_events =
     (if max_events > 0 then float_int (float_mul (float_div count max_events) 20) else 0)"

text \<open>\<open>max(events_by_day.values())\<close> of a dictionary that is not empty.\<close>

fun max_values :: "(string \<times> nat) list \<Rightarrow> nat" where
  "max_values [] = 0"
| "max_values ((k, v) # rest) = fold max (map snd rest) v"

text \<open>\<open>events_by_day.get(day, 0)\<close>.\<close>

definition day_count :: "(string \<times> nat) list \<Rightarrow> string \<Rightarrow> nat" where
  "day_count by_day day = (case map_of by_day day of None \<Rightarrow> 0 | Some n \<Rightarrow> n)"

text \<open>The thirty days of the chart, oldest first: \<open>today - timedelta(days=i)\<close> for
  \<open>i\<close> from 29 down to 0. The first subtraction is the largest, so it raises if any
  does.\<close>

definition chart_days :: "datetime \<Rightarrow> py_error + datetime list" where
  "chart_days today =
     (case minus_days today 29 of
        Inl e \<Rightarrow> Inl e
      | Inr oldest \<Rightarrow> Inr (map (\<lambda>i. today - i * us_per_day) (rev [0..<30])))"

text \<open>One line of the chart. The label is \<open>%m/%d\<close> of the day that was printed as
  \<open>%Y-%m-%d\<close> and parsed again.\<close>

definition chart_line :: "(string \<times> nat) list \<Rightarrow> nat \<Rightarrow> datetime \<Rightarrow> string" where
  "chart_line by_day max_events d =
     (let count = day_count by_day (fmt_ymd d);
          bar = concat (replicate (bar_length count max_events) fill_unit)
      in fmt_md d @ '' '' @ bar_separator @ bar @ '' '' @ str_nat count)"

definition no_activity :: string where
  "no_activity = ''No activity in the last 30 days''"

definition create_activity_chart :: "datetime \<Rightarrow> (string \<times> nat) list \<Rightarrow> py_error + string" where
  "create_activity_chart today by_day =
     (if by_day = [] then Inr no_activity
      else
        (case chart_days today of
           Inl e \<Rightarrow> Inl e
         | Inr days \<Rightarrow>
             let max_events = max_values by_day
             in Inr (join [nl]
                  ([[CHR 0x60, CHR 0x60, CHR 0x60], ''Activity over the last 30 days:'', []]
                   @ map (chart_line by_day max_events) days
                   @ [[CHR 0x60, CHR 0x60, CHR 0x60]]))))"

definition generate_activity_section :: "datetime \<Rightarrow> final_stats \<Rightarrow> py_error + string" where
  "generate_activity_section today stats =
     (case create_activity_chart today (f_events_by_day stats) of
        Inl e \<Rightarrow> Inl e
      | Inr chart \<Rightarrow>
          Inr (join [nl]
            [''### '' @ icon_summary @ '' Activity Summary'',
             [],
             ''- **'' @ str_nat (f_commits stats) @ ''** commits pushed'',
             ''- **'' @ str_nat (f_prs_opened stats) @ ''** pull requests opened'',
             ''- **'' @ str_nat (f_issues_opened stats) @ ''** issues opened'',
             ''- **'' @ str_nat (f_issues_commented stats) @ ''** issue comments'',
             ''- **'' @ str_nat (f_review_comments stats) @ ''** review comments'',
             ''- **'' @ str_nat (f_repos_contributed stats) @ ''** repositories contributed to'',
             [],
             chart]))"

text \<open>
  Claim C8. \<open>create_activity_chart\<close> of an empty map of counts is the fixed message that
  there was no activity, whatever the day: no chart is drawn.
\<close>

theorem empty_chart_message:
  "create_activity_chart today [] = Inr ''No activity in the last 30 days''"
  by (simp add: create_activity_chart_def no_activity_def)

text \<open>
  Claim C7. When the response to the profile request is not successful,
  \<open>fetch_user_stats\<close> returns the empty record (nothing is raised), and the stats section
  rendered from that record shows 0 for the followers, the public repositories and the
  gists.
\<close>

theorem failed_profile_renders_zero:
  assumes "p_status_code response \<noteq> 200"
  shows "fetch_user_stats response = Map.empty
    \<and> generate_stats_section (fetch_user_stats response) recent_stats =
       join [nl]
       [''![Followers](https://img.shields.io/badge/Followers-0-blue?style=flat-square)'',
        ''![Public Repos](https://img.shields.io/badge/Public_Repos-0-green?style=flat-square)'',
        ''![Total Stars](https://img.shields.io/badge/Total_Stars-0-yellow?style=flat-square)'',
        [],
        ''### '' @ icon_highlights @ '' This Month'' @ [CHR 0x27] @ ''s Highlights'',
        [],
        ''- '' @ icon_commits @ '' **'' @ str_nat (f_commits recent_stats) @ ''** commits'',
        ''- '' @ icon_prs @ '' **'' @ str_nat (f_prs_opened recent_stats) @ ''** PRs opened'',
        ''- '' @ icon_stars @ '' **'' @ str_nat (f_stars_given recent_stats)
          @ ''** repositories starred'',
        ''- '' @ icon_repos @ '' **'' @ str_nat (f_repos_created recent_stats)
          @ ''** new repositories created'']"
proof -
  have e: "fetch_user_stats response = Map.empty"
    using assms by (simp add: fetch_user_stats_def)
  have z: "py_str (get_or_zero Map.empty key) = ''0''" for key
    by (simp add: get_or_zero_def str_int_def str_nat.simps digit_char_def)
  show ?thesis
    unfolding e generate_stats_section_def z by simp
qed

theorem failed_profile_renders_zero_witness:
  "fetch_user_stats \<lparr>p_status_code = 404, p_json = [''followers'' \<mapsto> JInt 7]\<rparr> = Map.empty"
  using failed_profile_renders_zero[of "\<lparr>p_status_code = 404, p_json = [''followers'' \<mapsto> JInt 7]\<rparr>"]
  by simp

section \<open>Documents with one region for each pair\<close>


datatype section_kind = Activity | Stats | Date

fun start_marker :: "section_kind \<Rightarrow> string" where
  "start_marker Activity = activity_start"
| "start_marker Stats = stats_start"
| "start_marker Date = date_start"

fun end_marker :: "section_kind \<Rightarrow> string" where
  "end_marker Activity = activity_end"
| "end_marker Stats = stats_end"
| "end_marker Date = date_end"

text \<open>The region of a pair in a document, with the text between its markers.\<close>

definition region :: "section_kind \<Rightarrow> string \<Rightarrow> string" where
  "region k mid = start_marker k @ mid @ end_marker k"










text \<open>A document cut into pieces: plain text and regions of the pairs.\<close>

datatype piece = Text string | Region section_kind string

fun render :: "piece \<Rightarrow> string" where
  "render (Text t) = t"
| "render (Region k mid) = region k mid"

definition render_all :: "piece list \<Rightarrow> string" where
  "render_all pieces = concat (map render pieces)"

fun kinds :: "piece list \<Rightarrow> section_kind list" where
  "kinds [] = []"
| "kinds (Text t # ps) = kinds ps"
| "kinds (Region k mid # ps) = k # kinds ps"

fun subst_piece :: "section_kind \<Rightarrow> string \<Rightarrow> piece \<Rightarrow> piece" where
  "subst_piece k txt (Text t) = Text t"
| "subst_piece k txt (Region k' mid) = (if k' = k then Text txt else Region k' mid)"

definition subst :: "section_kind \<Rightarrow> string \<Rightarrow> piece list \<Rightarrow> piece list" where
  "subst k txt pieces = map (subst_piece k txt) pieces"




lemma render_all_simps [simp]:
  "render_all [] = []"
  "render_all (p # ps) = render p @ render_all ps"
  "render_all (ps @ qs) = render_all ps @ render_all qs"
  by (simp_all add: render_all_def)

lemma kinds_append [simp]: "kinds (ps @ qs) = kinds ps @ kinds qs"
  by (induction ps rule: kinds.induct) simp_all

lemma subst_simps [simp]:
  "subst k txt [] = []"
  "subst k txt (p # ps) = subst_piece k txt p # subst k txt ps"
  "subst k txt (ps @ qs) = subst k txt ps @ subst k txt qs"
  by (simp_all add: subst_def)


lemma kinds_subst: "set (kinds (subst k txt ps)) \<subseteq> set (kinds ps)"
  and distinct_kinds_subst: "distinct (kinds ps) \<Longrightarrow> distinct (kinds (subst k txt ps))"
proof -
  show s: "set (kinds (subst k txt ps)) \<subseteq> set (kinds ps)" for ps
  proof (induction ps)
    case Nil
    then show ?case by simp
  next
    case (Cons p ps)
    then show ?case by (cases p) auto
  qed
  show "distinct (kinds ps) \<Longrightarrow> distinct (kinds (subst k txt ps))"
  proof (induction ps)
    case Nil
    then show ?case by simp
  next
    case (Cons p ps)
    then show ?case using s[of ps] by (cases p) auto
  qed
qed





















lemma bitlen_0 [simp]: "bitlen 0 = 0"
  by (subst bitlen.simps) simp











text \<open>A map \<open>analyze_events\<close> returns at 10:00 on 2025-11-06: one event of today at
  9:00 and four events of 2025-10-07 at 12:00, which lie inside the window of thirty times
  24 hours.\<close>

lemma analyzed_map_example:
  "(let old = \<lparr>ev_created_at = Some 63895435200000000, ev_type = Some ''WatchEvent'',
                ev_repo = Some \<lparr>repo_name = Some ''me/site''\<rparr>, ev_payload = None\<rparr>
    in map_sum id f_events_by_day
         (analyze_events 63898020000000000
           [\<lparr>ev_created_at = Some 63898016400000000, ev_type = Some ''WatchEvent'',
             ev_repo = Some \<lparr>repo_name = Some ''me/site''\<rparr>, ev_payload = None\<rparr>,
            old, old, old, old]))
   = Inr [(''2025-11-06'', 1), (''2025-10-07'', 4)]"
proof -
  have d: "fmt_ymd 63898016400000000 = ''2025-11-06''"
    "fmt_ymd 63895435200000000 = ''2025-10-07''"
    by (simp_all add: fmt_ymd_def date_of_def ord2ymd_def us_per_day_def Let_def
        days_before_month_def days_in_month_def zero_pad_def str_nat.simps digit_char_def)
  have h: "minus_days 63898020000000000 30 = Inr 63895428000000000"
    by (simp add: minus_days_def us_per_day_def)
  show ?thesis
    by (simp add: analyze_events_def h analyze_event_def lookup_def count_event_def d
        initial_stats_def finish_def Let_def)
qed



end
